theory Spec2Isabelle
  imports Main "HOL-Library.Sublist"
begin

section \<open>Data model\<close>

text \<open>
  The builder of \<^verbatim>\<open>frontend/cs/scs/api.go\<close> is generic in the field element type
  \<^verbatim>\<open>E\<close>; every field operation goes through the adapter \<^verbatim>\<open>builder.cs\<close>
  (\<^verbatim>\<open>Add\<close>, \<^verbatim>\<open>Sub\<close>, \<^verbatim>\<open>Mul\<close>, \<^verbatim>\<open>Neg\<close>, \<^verbatim>\<open>Inverse\<close>, \<^verbatim>\<open>IsZero\<close>, \<^verbatim>\<open>IsOne\<close>).
  The model is generic in the same way: \<^verbatim>\<open>E\<close> is a type variable of sort \<open>field\<close>, and the
  adapter's operations are the operations of that class.
\<close>

text \<open>\<^verbatim>\<open>expr.Term[E]\<close>: a coefficient times a wire.\<close>

record 'a Term =
  VID :: nat
  Coeff :: 'a

text \<open>
  \<^verbatim>\<open>frontend.Variable\<close> is an interface value that is either a constant (an integer, a big
  integer, anything \<^verbatim>\<open>FromInterface\<close> turns into a field element) or an \<^verbatim>\<open>expr.Term[E]\<close>.
  The constant is kept as the field element \<^verbatim>\<open>FromInterface\<close> gives.
\<close>

datatype 'a Variable = Constant 'a | Wire "'a Term"

datatype CommitmentConstraint = NOT | COMMITTED | COMMITMENT

text \<open>\<^verbatim>\<open>sparseR1C[E]\<close>: the gate \<open>qL\<cdot>xa + qR\<cdot>xb + qM\<cdot>xa\<cdot>xb + qO\<cdot>xc + qC = 0\<close>.\<close>

record 'a sparseR1C =
  xa :: nat
  xb :: nat
  xc :: nat
  qL :: 'a
  qR :: 'a
  qO :: 'a
  qM :: 'a
  qC :: 'a
  commitment :: CommitmentConstraint

text \<open>Go's zero value of the struct: a composite literal leaves the fields it omits at zero.\<close>

definition zeroR1C :: "'a::field sparseR1C" where
  "zeroR1C = \<lparr>xa = 0, xb = 0, xc = 0, qL = 0, qR = 0, qO = 0, qM = 0, qC = 0, commitment = NOT\<rparr>"

datatype HintID = InvZeroHint | Bsb22CommitmentComputePlaceholder

record 'a HintBinding =
  hintId :: HintID
  hintInputs :: "'a Variable list"
  hintOutputs :: "nat list"

text \<open>\<^verbatim>\<open>constraint.PlonkCommitment\<close>.\<close>

record PlonkCommitment =
  CommitmentIndex :: nat
  Committed :: "nat list"

text \<open>
  The builder with its constraint system: the gates in the order they were added, the number
  of wires allocated so far, the hint bindings, the terms marked boolean, the commitment
  bookkeeping, and the two constants of the field the adapter reports (\<^verbatim>\<open>FieldBitLen()\<close> and
  \<^verbatim>\<open>Field()\<close>).
\<close>

record 'a builder =
  constraints :: "'a sparseR1C list"
  nbVariables :: nat
  hints :: "'a HintBinding list"
  mtBooleans :: "'a Term list"
  commitments :: "PlonkCommitment list"
  fieldBitLen :: nat
  fieldModulus :: int

text \<open>
  A panic aborts the compilation; an error is the \<^verbatim>\<open>error\<close> value a Go function returns to
  its caller. Both carry the message of the source.
\<close>

datatype failure = Panic string | Error string

type_synonym ('r, 'a) result = "(failure + 'r) \<times> 'a builder"

definition bnd :: "('r, 'a) result \<Rightarrow> ('r \<Rightarrow> 'a builder \<Rightarrow> ('q, 'a) result) \<Rightarrow> ('q, 'a) result" where
  "bnd m f = (case m of (Inl e, s) \<Rightarrow> (Inl e, s) | (Inr r, s) \<Rightarrow> f r s)"

section \<open>The builder's helpers\<close>

text \<open>
  Modelled from the spec: \<^verbatim>\<open>constantValue\<close> (builder.go, whose source is missing).
  A constant operand is a concrete field value, a variable operand is a Term (spec 4.1).
\<close>

definition constantValue :: "'a Variable \<Rightarrow> 'a option" where
  "constantValue v = (case v of Constant c \<Rightarrow> Some c | Wire t \<Rightarrow> None)"

text \<open>
  Modelled from the spec: \<^verbatim>\<open>newInternalVariable\<close> (builder.go). It allocates a fresh variable
  of internal visibility from a monotonic counter that is never reused (spec 4.4); the term it
  returns has coefficient one.
\<close>

definition newInternalVariable :: "'a::field builder \<Rightarrow> 'a Term \<times> 'a builder" where
  "newInternalVariable s =
     (\<lparr>VID = nbVariables s, Coeff = 1\<rparr>, s\<lparr>nbVariables := Suc (nbVariables s)\<rparr>)"

text \<open>
  Modelled from the spec: \<^verbatim>\<open>addPlonkConstraint\<close> (builder.go) appends the gate to the
  constraint system (spec 4.4).
\<close>

definition addPlonkConstraint :: "'a builder \<Rightarrow> 'a sparseR1C \<Rightarrow> 'a builder" where
  "addPlonkConstraint s c = s\<lparr>constraints := constraints s @ [c]\<rparr>"

text \<open>
  Modelled from the spec: \<^verbatim>\<open>filterConstantSum\<close> and \<^verbatim>\<open>filterConstantProd\<close> (builder.go).
  They partition the operands into the variable terms and one folded constant, the sum or the
  product of the constant operands (spec 4.1). In a sum a term whose coefficient is zero is
  dropped (spec 3); in a product every term is kept, and \<^verbatim>\<open>Mul\<close> looks for the zero
  coefficients itself.
\<close>

fun filterConstantSum :: "'a::field Variable list \<Rightarrow> 'a Term list \<times> 'a" where
  "filterConstantSum [] = ([], 0)"
| "filterConstantSum (Constant c # r) = (let (vs, k) = filterConstantSum r in (vs, c + k))"
| "filterConstantSum (Wire t # r) =
     (let (vs, k) = filterConstantSum r in (if Coeff t = 0 then vs else t # vs, k))"

fun filterConstantProd :: "'a::field Variable list \<Rightarrow> 'a Term list \<times> 'a" where
  "filterConstantProd [] = ([], 1)"
| "filterConstantProd (Constant c # r) = (let (vs, k) = filterConstantProd r in (vs, c * k))"
| "filterConstantProd (Wire t # r) = (let (vs, k) = filterConstantProd r in (t # vs, k))"

text \<open>
  Modelled from the spec: \<^verbatim>\<open>reduce\<close> (builder.go) merges the terms that share a wire by
  adding their coefficients; the result has one term for each wire, in the order in which the
  wires first occur in the input (spec 4.2).
\<close>

fun mergeTerm :: "'a::field Term \<Rightarrow> 'a Term list \<Rightarrow> 'a Term list" where
  "mergeTerm t [] = [t]"
| "mergeTerm t (u # us) =
     (if VID u = VID t then u\<lparr>Coeff := Coeff u + Coeff t\<rparr> # us else u # mergeTerm t us)"

definition reduce :: "'a::field Term list \<Rightarrow> 'a Term list" where
  "reduce l = foldl (\<lambda>acc t. mergeTerm t acc) [] l"

text \<open>
  Modelled from the spec: \<^verbatim>\<open>splitSum\<close> (builder.go) builds a chain of binary addition
  gates \<open>acc + next - newAcc = 0\<close>, one for each term of the rest, and with a constant one
  more gate that carries it in \<open>qC\<close>; a single term without a constant is returned as it is,
  with no gate (spec 4.3).
\<close>

fun splitSum :: "'a::field builder \<Rightarrow> 'a Term \<Rightarrow> 'a Term list \<Rightarrow> 'a option \<Rightarrow> 'a Term \<times> 'a builder" where
  "splitSum s acc [] None = (acc, s)"
| "splitSum s acc [] (Some k) =
     (let (out, s1) = newInternalVariable s
      in (out, addPlonkConstraint s1
            (zeroR1C\<lparr>xa := VID acc, xc := VID out, qL := Coeff acc, qO := - 1, qC := k\<rparr>)))"
| "splitSum s acc (t # r) k =
     (let (out, s1) = newInternalVariable s;
          s2 = addPlonkConstraint s1
            (zeroR1C\<lparr>xa := VID acc, xb := VID t, xc := VID out,
                      qL := Coeff acc, qR := Coeff t, qO := - 1\<rparr>)
      in splitSum s2 out r k)"

text \<open>
  Modelled from the spec: \<^verbatim>\<open>splitProd\<close> (builder.go), the analogous chain of binary
  multiplication gates \<open>qM\<cdot>acc\<cdot>next - newAcc = 0\<close>; a single term is returned as it is
  (spec 4.3).
\<close>

fun splitProd :: "'a::field builder \<Rightarrow> 'a Term \<Rightarrow> 'a Term list \<Rightarrow> 'a Term \<times> 'a builder" where
  "splitProd s acc [] = (acc, s)"
| "splitProd s acc (t # r) =
     (let (out, s1) = newInternalVariable s;
          s2 = addPlonkConstraint s1
            (zeroR1C\<lparr>xa := VID acc, xb := VID t, xc := VID out,
                      qM := Coeff acc * Coeff t, qO := - 1\<rparr>)
      in splitProd s2 out r)"

text \<open>
  Modelled from the spec: \<^verbatim>\<open>NewHint\<close> (builder.go) records a hint binding and returns
  freshly allocated output variables; it fails, with an error returned to the caller, if the
  number of outputs is not positive (spec 4.6, 7). Every operand of the model is a constant or
  a term, so no input is structurally invalid.
\<close>

definition NewHint :: "'a::field builder \<Rightarrow> HintID \<Rightarrow> int \<Rightarrow> 'a Variable list \<Rightarrow> ('a Variable list, 'a) result" where
  "NewHint s f nbOutputs inputs =
     (if nbOutputs \<le> 0 then (Inl (Error ''hint function must return at least one output''), s)
      else
        let outs = [nbVariables s ..< nbVariables s + nat nbOutputs]
        in (Inr (map (\<lambda>i. Wire \<lparr>VID = i, Coeff = 1\<rparr>) outs),
            s\<lparr>nbVariables := nbVariables s + nat nbOutputs,
              hints := hints s @ [\<lparr>hintId = f, hintInputs = inputs, hintOutputs = outs\<rparr>]\<rparr>))"

text \<open>
  Modelled from the spec: \<^verbatim>\<open>IsBoolean\<close>, \<^verbatim>\<open>MarkBoolean\<close> and \<^verbatim>\<open>AssertIsBoolean\<close>
  (builder.go and the assertions API). A constant is boolean if it is 0 or 1; a term is known to
  be boolean once it has been marked. Asserting a term that is already marked emits nothing;
  otherwise the term is marked and the gate \<open>v\<cdot>(1 - v) = 0\<close> is emitted (spec 4.5). A
  constant that is not boolean is a malformed circuit and panics (spec 7).
\<close>

definition IsBoolean :: "'a::field builder \<Rightarrow> 'a Variable \<Rightarrow> bool" where
  "IsBoolean s v = (case v of Constant c \<Rightarrow> c = 0 \<or> c = 1 | Wire t \<Rightarrow> t \<in> set (mtBooleans s))"

definition MarkBoolean :: "'a::field builder \<Rightarrow> 'a Variable \<Rightarrow> (unit, 'a) result" where
  "MarkBoolean s v =
     (case v of
        Constant c \<Rightarrow>
          if IsBoolean s v then (Inr (), s)
          else (Inl (Panic ''MarkBoolean called a non-boolean constant''), s)
      | Wire t \<Rightarrow> (Inr (), s\<lparr>mtBooleans := mtBooleans s @ [t]\<rparr>))"

definition AssertIsBoolean :: "'a::field builder \<Rightarrow> 'a Variable \<Rightarrow> (unit, 'a) result" where
  "AssertIsBoolean s i1 =
     (case i1 of
        Constant c \<Rightarrow>
          if c = 0 \<or> c = 1 then (Inr (), s)
          else (Inl (Panic ''assertIsBoolean failed''), s)
      | Wire v \<Rightarrow>
          if IsBoolean s (Wire v) then (Inr (), s)
          else
            bnd (MarkBoolean s (Wire v)) (\<lambda>_ s1.
              (Inr (), addPlonkConstraint s1
                 (zeroR1C\<lparr>xa := VID v, xb := VID v, qL := Coeff v,
                           qM := - (Coeff v * Coeff v)\<rparr>))))"

text \<open>
  Modelled from the spec: \<^verbatim>\<open>AddCommitment\<close> of the constraint system records which gates
  are committed and which gate carries the commitment (spec 3).
\<close>

definition AddCommitment :: "'a builder \<Rightarrow> PlonkCommitment \<Rightarrow> 'a builder" where
  "AddCommitment s c = s\<lparr>commitments := commitments s @ [c]\<rparr>"

section \<open>The arithmetic API (api.go)\<close>

definition Neg :: "'a::field Variable \<Rightarrow> 'a Variable" where
  "Neg i1 =
     (case constantValue i1 of
        Some n \<Rightarrow> Constant (- n)
      | None \<Rightarrow> (case i1 of Wire v \<Rightarrow> Wire (v\<lparr>Coeff := - Coeff v\<rparr>) | Constant c \<Rightarrow> Constant (- c)))"

definition neg :: "'a::field Variable list \<Rightarrow> 'a Variable list" where
  "neg ins = map Neg ins"

definition Add :: "'a::field builder \<Rightarrow> 'a Variable \<Rightarrow> 'a Variable \<Rightarrow> 'a Variable list \<Rightarrow> ('a Variable, 'a) result" where
  "Add s i1 i2 ins =
     (let (vars, k) = filterConstantSum (i1 # i2 # ins)
      in if length vars = 0 then (Inr (Constant k), s)
         else
           (case reduce vars of
              [] \<Rightarrow> (Inl (Panic ''index out of range''), s)
            | v0 # rest \<Rightarrow>
                let (r, s1) = (if k = 0 then splitSum s v0 rest None
                               else splitSum s v0 rest (Some k))
                in (Inr (Wire r), s1)))"

definition Sub :: "'a::field builder \<Rightarrow> 'a Variable \<Rightarrow> 'a Variable \<Rightarrow> 'a Variable list \<Rightarrow> ('a Variable, 'a) result" where
  "Sub s i1 i2 ins =
     (case neg (i2 # ins) of
        [] \<Rightarrow> (Inl (Panic ''index out of range''), s)
      | r0 # rs \<Rightarrow> Add s i1 r0 rs)"

definition mulConstant :: "'a::field Term \<Rightarrow> 'a \<Rightarrow> 'a Term" where
  "mulConstant t m = t\<lparr>Coeff := Coeff t * m\<rparr>"

definition Mul :: "'a::field builder \<Rightarrow> 'a Variable \<Rightarrow> 'a Variable \<Rightarrow> 'a Variable list \<Rightarrow> ('a Variable, 'a) result" where
  "Mul s i1 i2 ins =
     (let (vars, k) = filterConstantProd (i1 # i2 # ins)
      in if length vars = 0 then (Inr (Constant k), s)
         else if k = 0 then (Inr (Constant 0), s)
         else if list_ex (\<lambda>v. Coeff v = 0) vars then (Inr (Constant 0), s)
         else
           (case vars of
              [] \<Rightarrow> (Inl (Panic ''index out of range''), s)
            | v0 # rest \<Rightarrow>
                let l = mulConstant v0 k;
                    (r, s1) = splitProd s l rest
                in (Inr (Wire r), s1)))"

text \<open>
  \<^verbatim>\<open>mulAccFastTrack\<close> returns \<^verbatim>\<open>nil\<close> when the fast path does not apply: \<open>None\<close> here.
\<close>

definition mulAccFastTrack :: "'a::field builder \<Rightarrow> 'a Variable \<Rightarrow> 'a Variable \<Rightarrow> 'a Variable \<Rightarrow> ('a Variable \<times> 'a builder) option" where
  "mulAccFastTrack s a b c =
     (case a of Constant _ \<Rightarrow> None | Wire aVar \<Rightarrow>
      (case b of Constant _ \<Rightarrow> None | Wire bVar0 \<Rightarrow>
       (case c of Constant _ \<Rightarrow> None | Wire cVar0 \<Rightarrow>
          let (bVar, cVar) = (if VID aVar = VID bVar0 then (cVar0, bVar0) else (bVar0, cVar0))
          in if VID aVar \<noteq> VID cVar then None
             else
               let (res, s1) = newInternalVariable s;
                   s2 = addPlonkConstraint s1
                     \<lparr>xa = VID aVar, xb = VID bVar, xc = VID res,
                      qL = Coeff aVar, qR = 0, qO = - 1,
                      qM = Coeff bVar * Coeff cVar, qC = 0, commitment = NOT\<rparr>
               in Some (Wire res, s2))))"

definition MulAcc :: "'a::field builder \<Rightarrow> 'a Variable \<Rightarrow> 'a Variable \<Rightarrow> 'a Variable \<Rightarrow> ('a Variable, 'a) result" where
  "MulAcc s a b c =
     (case mulAccFastTrack s a b c of
        Some (fastTrack, s1) \<Rightarrow> (Inr fastTrack, s1)
      | None \<Rightarrow> bnd (Mul s b c []) (\<lambda>bc s1. Add s1 a bc []))"

definition Inverse :: "'a::field builder \<Rightarrow> 'a Variable \<Rightarrow> ('a Variable, 'a) result" where
  "Inverse s i1 =
     (case i1 of
        Constant c \<Rightarrow>
          if c = 0 then (Inl (Panic ''inverse by constant(0)''), s)
          else (Inr (Constant (inverse c)), s)
      | Wire t \<Rightarrow>
          let (res, s1) = newInternalVariable s;
              constraint = zeroR1C\<lparr>xa := VID res, xb := VID t, qM := Coeff t, qC := - 1\<rparr>
          in (Inr (Wire res), addPlonkConstraint s1 constraint))"

definition DivUnchecked :: "'a::field builder \<Rightarrow> 'a Variable \<Rightarrow> 'a Variable \<Rightarrow> ('a Variable, 'a) result" where
  "DivUnchecked s i1 i2 =
     (case (i1, i2) of
        (Constant c1, Constant c2) \<Rightarrow>
          if c2 = 0 then (Inl (Panic ''inverse by constant(0)''), s)
          else (Inr (Constant (inverse c2 * c1)), s)
      | (Wire t1, Constant c2) \<Rightarrow>
          if c2 = 0 then (Inl (Panic ''inverse by constant(0)''), s)
          else (Inr (Wire (mulConstant t1 (inverse c2))), s)
      | (Constant c1, Wire t2) \<Rightarrow>
          bnd (Inverse s i2) (\<lambda>res s1.
            (case res of
               Wire r \<Rightarrow> (Inr (Wire (mulConstant r c1)), s1)
             | Constant _ \<Rightarrow> (Inl (Panic ''interface conversion''), s1)))
      | (Wire t1, Wire t2) \<Rightarrow>
          let (res, s1) = newInternalVariable s
          in (Inr (Wire res),
              addPlonkConstraint s1
                (zeroR1C\<lparr>xa := VID res, xb := VID t2, xc := VID t1,
                          qM := Coeff t2, qO := - Coeff t1\<rparr>)))"

definition Div :: "'a::field builder \<Rightarrow> 'a Variable \<Rightarrow> 'a Variable \<Rightarrow> ('a Variable, 'a) result" where
  "Div s i1 i2 = bnd (Inverse s i2) (\<lambda>_ s1. DivUnchecked s1 i1 i2)"

section \<open>Boolean operations and conditionals (api.go)\<close>

definition Xor :: "'a::field builder \<Rightarrow> 'a Variable \<Rightarrow> 'a Variable \<Rightarrow> ('a Variable, 'a) result" where
  "Xor s a b =
     bnd (AssertIsBoolean s a) (\<lambda>_ s1.
     bnd (AssertIsBoolean s1 b) (\<lambda>_ s2.
       (case (constantValue a, constantValue b) of
          (Some ca, Some cb) \<Rightarrow>
            (Inr (Constant (of_bool ((ca = 1) \<noteq> (cb = 1)))), s2)
        | (aConst, bConst0) \<Rightarrow>
            let (res, s3) = newInternalVariable s2
            in bnd (MarkBoolean s3 (Wire res)) (\<lambda>_ s4.
                 let (a1, b1, bConst) =
                       (if aConst \<noteq> None then (b, a, aConst) else (a, b, bConst0))
                 in (case bConst of
                       Some cb \<Rightarrow>
                         (case a1 of
                            Constant _ \<Rightarrow> (Inl (Panic ''interface conversion''), s4)
                          | Wire ta \<Rightarrow>
                              let qL1 = (1 - cb - cb) * Coeff ta
                              in (Inr (Wire res),
                                  addPlonkConstraint s4
                                    (zeroR1C\<lparr>xa := VID ta, xc := VID res,
                                              qL := qL1, qO := - 1, qC := cb\<rparr>)))
                     | None \<Rightarrow>
                         (case (a1, b1) of
                            (Wire ta, Wire tb) \<Rightarrow>
                              let qM1 = (1 + 1) * Coeff ta * Coeff tb;
                                  qL1 = - Coeff ta;
                                  qR1 = - Coeff tb
                              in (Inr (Wire res),
                                  addPlonkConstraint s4
                                    (zeroR1C\<lparr>xa := VID ta, xb := VID tb, xc := VID res,
                                              qL := qL1, qR := qR1, qO := 1, qM := qM1\<rparr>))
                          | _ \<Rightarrow> (Inl (Panic ''interface conversion''), s4)))))))"

definition Or :: "'a::field builder \<Rightarrow> 'a Variable \<Rightarrow> 'a Variable \<Rightarrow> ('a Variable, 'a) result" where
  "Or s a b =
     bnd (AssertIsBoolean s a) (\<lambda>_ s1.
     bnd (AssertIsBoolean s1 b) (\<lambda>_ s2.
       (case (constantValue a, constantValue b) of
          (Some ca, Some cb) \<Rightarrow>
            (if ca = 1 \<or> cb = 1 then (Inr (Constant 1), s2) else (Inr (Constant 0), s2))
        | (aConst, bConst0) \<Rightarrow>
            let (a1, b1, bConst) =
                  (if aConst \<noteq> None then (b, a, aConst) else (a, b, bConst0))
            in (case bConst of
                  Some cb \<Rightarrow> (if cb = 1 then (Inr (Constant 1), s2) else (Inr a1, s2))
                | None \<Rightarrow>
                    let (res, s3) = newInternalVariable s2
                    in bnd (MarkBoolean s3 (Wire res)) (\<lambda>_ s4.
                         (case (a1, b1) of
                            (Wire ta, Wire tb) \<Rightarrow>
                              let qM1 = Coeff ta * Coeff tb;
                                  qL1 = - Coeff ta;
                                  qR1 = - Coeff tb
                              in (Inr (Wire res),
                                  addPlonkConstraint s4
                                    (zeroR1C\<lparr>xa := VID ta, xb := VID tb, xc := VID res,
                                              qL := qL1, qR := qR1, qM := qM1, qO := 1\<rparr>))
                          | _ \<Rightarrow> (Inl (Panic ''interface conversion''), s4)))))))"

definition And :: "'a::field builder \<Rightarrow> 'a Variable \<Rightarrow> 'a Variable \<Rightarrow> ('a Variable, 'a) result" where
  "And s a b =
     bnd (AssertIsBoolean s a) (\<lambda>_ s1.
     bnd (AssertIsBoolean s1 b) (\<lambda>_ s2.
     bnd (Mul s2 a b []) (\<lambda>res s3.
     bnd (MarkBoolean s3 res) (\<lambda>_ s4. (Inr res, s4)))))"

definition Select :: "'a::field builder \<Rightarrow> 'a Variable \<Rightarrow> 'a Variable \<Rightarrow> 'a Variable \<Rightarrow> ('a Variable, 'a) result" where
  "Select s b i1 i2 =
     (case constantValue b of
        Some cb \<Rightarrow>
          if \<not> IsBoolean s b then (Inl (Panic ''should be 0 or 1''), s)
          else if cb = 0 then (Inr i2, s)
          else (Inr i1, s)
      | None \<Rightarrow>
          bnd (AssertIsBoolean s b) (\<lambda>_ s1.
          bnd (Sub s1 i1 i2 []) (\<lambda>u s2.
          bnd (Mul s2 u b []) (\<lambda>l s3.
          Add s3 l i2 []))))"

definition IsZero :: "'a::field builder \<Rightarrow> 'a Variable \<Rightarrow> ('a Variable, 'a) result" where
  "IsZero s i1 =
     (case i1 of
        Constant a \<Rightarrow> (if a = 0 then (Inr (Constant 1), s) else (Inr (Constant 0), s))
      | Wire a \<Rightarrow>
          let (m, s1) = newInternalVariable s
          in (case NewHint s1 InvZeroHint 1 [Wire a] of
                (Inl (Error e), s2) \<Rightarrow> (Inl (Panic e), s2)
              | (Inl (Panic e), s2) \<Rightarrow> (Inl (Panic e), s2)
              | (Inr x, s2) \<Rightarrow>
                  (case x of
                     Wire X # _ \<Rightarrow>
                       let s3 = addPlonkConstraint s2
                                  (zeroR1C\<lparr>xa := VID a, xb := VID X, xc := VID m,
                                            qM := Coeff a, qO := 1, qC := - 1\<rparr>);
                           s4 = addPlonkConstraint s3
                                  (zeroR1C\<lparr>xa := VID a, xb := VID m, qM := Coeff a\<rparr>)
                       in bnd (MarkBoolean s4 (Wire m)) (\<lambda>_ s5. (Inr (Wire m), s5))
                   | Constant _ # _ \<Rightarrow> (Inl (Panic ''interface conversion''), s2)
                   | [] \<Rightarrow> (Inl (Panic ''index out of range''), s2))))"

text \<open>
  \<^verbatim>\<open>Cmp\<close> calls \<^verbatim>\<open>bits.ToBinary\<close> of the package \<^verbatim>\<open>std/math/bits\<close>, whose source is
  missing: the bit decomposition is a parameter of the model. The loop of the source
  runs \<open>i\<close> from \<^verbatim>\<open>FieldBitLen() - 1\<close> down to 0; \<open>Cmp_loop \<dots> (Suc i)\<close> is the iteration
  at index \<open>i\<close>.
\<close>

fun Cmp_loop :: "'a::field builder \<Rightarrow> 'a Variable list \<Rightarrow> 'a Variable list \<Rightarrow> 'a Variable \<Rightarrow> nat \<Rightarrow> ('a Variable, 'a) result" where
  "Cmp_loop s bi1 bi2 res 0 = (Inr res, s)"
| "Cmp_loop s bi1 bi2 res (Suc i) =
     (if length bi1 \<le> i then (Inl (Panic ''index out of range''), s)
      else
        bnd (IsZero s (bi1 ! i)) (\<lambda>iszeroi1 s1.
          if length bi2 \<le> i then (Inl (Panic ''index out of range''), s1)
          else
            bnd (IsZero s1 (bi2 ! i)) (\<lambda>iszeroi2 s2.
            bnd (And s2 (bi1 ! i) iszeroi2) (\<lambda>i1i2 s3.
            bnd (And s3 (bi2 ! i) iszeroi1) (\<lambda>i2i1 s4.
            bnd (Select s4 i2i1 (Constant (- 1)) (Constant 0)) (\<lambda>n s5.
            bnd (Select s5 i1i2 (Constant 1) n) (\<lambda>m s6.
            bnd (IsZero s6 res) (\<lambda>z s7.
            bnd (Select s7 z m res) (\<lambda>res1 s8.
            Cmp_loop s8 bi1 bi2 res1 i)))))))))"

definition Cmp :: "('a::field builder \<Rightarrow> 'a Variable \<Rightarrow> nat \<Rightarrow> ('a Variable list, 'a) result) \<Rightarrow> 'a builder \<Rightarrow> 'a Variable \<Rightarrow> 'a Variable \<Rightarrow> ('a Variable, 'a) result" where
  "Cmp ToBinary s i1 i2 =
     (let nbBits = fieldBitLen s
      in bnd (ToBinary s i1 nbBits) (\<lambda>bi1 s1.
         bnd (ToBinary s1 i2 nbBits) (\<lambda>bi2 s2.
         Cmp_loop s2 bi1 bi2 (Constant 0) (fieldBitLen s2))))"

text \<open>
  The scan as the spec words it, on the values of the bits: from the most significant bit down,
  a running result that is not zero is frozen, and one that is zero becomes 1 or -1 at a bit
  where the operands differ and stays 0 where they tie. \<open>Cmp_scan_spec p q res i\<close> scans the
  bits \<open>i - 1, \<dots>, 0\<close> of \<open>p\<close> and \<open>q\<close>.
\<close>

fun Cmp_scan_spec :: "(nat \<Rightarrow> 'a::field) \<Rightarrow> (nat \<Rightarrow> 'a) \<Rightarrow> 'a \<Rightarrow> nat \<Rightarrow> 'a" where
  "Cmp_scan_spec p q res 0 = res"
| "Cmp_scan_spec p q res (Suc i) =
     Cmp_scan_spec p q (if res \<noteq> 0 then res
                   else if p i = 1 \<and> q i = 0 then 1
                   else if p i = 0 \<and> q i = 1 then - 1
                   else 0) i"

section \<open>Commitments (api.go)\<close>

definition filterConstants :: "'a Variable list \<Rightarrow> 'a Variable list" where
  "filterConstants v = filter (\<lambda>vI. case vI of Wire _ \<Rightarrow> True | Constant _ \<Rightarrow> False) v"

text \<open>
  The loop of \<^verbatim>\<open>Commit\<close> over the filtered values; \<open>committed\<close> collects the index of the
  gate emitted for each value.
\<close>

fun Commit_loop :: "'a::field builder \<Rightarrow> 'a Variable list \<Rightarrow> nat list \<Rightarrow> (nat list, 'a) result" where
  "Commit_loop s [] committed = (Inr committed, s)"
| "Commit_loop s (vI # vs) committed =
     (case Neg vI of
        Constant _ \<Rightarrow> (Inl (Panic ''interface conversion''), s)
      | Wire vINeg \<Rightarrow>
          let idx = length (constraints s);
              s1 = addPlonkConstraint s
                     (zeroR1C\<lparr>xa := VID vINeg, qL := Coeff vINeg, commitment := COMMITTED\<rparr>)
          in Commit_loop s1 vs (committed @ [idx]))"

text \<open>
  The source of \<^verbatim>\<open>smallfields.IsSmallField\<close> is missing: which moduli are small
  fields is a parameter of the model.
\<close>

definition Commit :: "(int \<Rightarrow> bool) \<Rightarrow> 'a::field builder \<Rightarrow> 'a Variable list \<Rightarrow> ('a Variable, 'a) result" where
  "Commit IsSmallField s v =
     (if IsSmallField (fieldModulus s)
      then (Inl (Error ''commitment not supported for small field''), s)
      else
        let depth = length (commitments s);
            v1 = filterConstants v
        in bnd (Commit_loop s v1 []) (\<lambda>committed s1.
           bnd (NewHint s1 Bsb22CommitmentComputePlaceholder 1 (Constant (of_nat depth) # v1))
             (\<lambda>outs s2.
               (case outs of
                  [] \<Rightarrow> (Inl (Panic ''index out of range''), s2)
                | out0 # _ \<Rightarrow>
                    (case Neg out0 of
                       Constant _ \<Rightarrow> (Inl (Panic ''interface conversion''), s2)
                     | Wire commitmentVar \<Rightarrow>
                         let commitmentConstraintIndex = length (constraints s2);
                             s3 = addPlonkConstraint s2
                                    (zeroR1C\<lparr>xa := VID commitmentVar, qL := Coeff commitmentVar,
                                              commitment := COMMITMENT\<rparr>)
                         in (Inr out0,
                             AddCommitment s3
                               \<lparr>CommitmentIndex = commitmentConstraintIndex,
                                Committed = committed\<rparr>))))))"

section \<open>Assignments and satisfaction\<close>

text \<open>
  An assignment gives every wire a field element. A term stands for its coefficient times the
  value of its wire; a gate holds under an assignment if its polynomial vanishes.
\<close>

definition termVal :: "(nat \<Rightarrow> 'a::field) \<Rightarrow> 'a Term \<Rightarrow> 'a" where
  "termVal w t = Coeff t * w (VID t)"

definition eval :: "(nat \<Rightarrow> 'a::field) \<Rightarrow> 'a Variable \<Rightarrow> 'a" where
  "eval w v = (case v of Constant c \<Rightarrow> c | Wire t \<Rightarrow> termVal w t)"

definition gateHolds :: "(nat \<Rightarrow> 'a::field) \<Rightarrow> 'a sparseR1C \<Rightarrow> bool" where
  "gateHolds w g \<longleftrightarrow>
     qL g * w (xa g) + qR g * w (xb g) + qM g * w (xa g) * w (xb g) + qO g * w (xc g) + qC g = 0"

definition satisfies :: "(nat \<Rightarrow> 'a::field) \<Rightarrow> 'a sparseR1C list \<Rightarrow> bool" where
  "satisfies w gs \<longleftrightarrow> list_all (gateHolds w) gs"

text \<open>The gates a call has added: those of the state after it, beyond those of the state before.\<close>

definition emitted :: "'a builder \<Rightarrow> 'a builder \<Rightarrow> 'a sparseR1C list" where
  "emitted s s1 = drop (length (constraints s)) (constraints s1)"

text \<open>
  A gate is in range if its three wires have been allocated, and a builder is well formed if
  all its gates are: the operations of the API keep a builder well formed. Two assignments agree
  up to \<open>n\<close> if they give the same value to every wire below \<open>n\<close>: an operation that
  allocates wires extends an assignment without changing it on the wires that exist.
\<close>

definition gateInRange :: "nat \<Rightarrow> 'a sparseR1C \<Rightarrow> bool" where
  "gateInRange n g \<longleftrightarrow> xa g < n \<and> xb g < n \<and> xc g < n"

definition varInRange :: "nat \<Rightarrow> 'a Variable \<Rightarrow> bool" where
  "varInRange n v = (case v of Constant c \<Rightarrow> True | Wire t \<Rightarrow> VID t < n)"

definition wellFormed :: "'a builder \<Rightarrow> bool" where
  "wellFormed s \<longleftrightarrow> list_all (gateInRange (nbVariables s)) (constraints s)"

definition agree :: "nat \<Rightarrow> (nat \<Rightarrow> 'a) \<Rightarrow> (nat \<Rightarrow> 'a) \<Rightarrow> bool" where
  "agree n w w1 \<longleftrightarrow> list_all (\<lambda>i. w1 i = w i) [0..<n]"

text \<open>
  The representative of a field element in \<open>[0, p)\<close>: the least natural number below \<open>p\<close>
  whose image in the field is the element (0 if there is none). In the integers modulo \<open>p\<close>
  it is the canonical representative, the integer that \<^verbatim>\<open>Cmp\<close> compares.
\<close>

definition repr :: "nat \<Rightarrow> 'a::field \<Rightarrow> nat" where
  "repr p x = (case find (\<lambda>n. of_nat n = x) [0..<p] of Some n \<Rightarrow> n | None \<Rightarrow> 0)"

section \<open>A small prime field\<close>

text \<open>
  The integers modulo 7, an instance of the field the builder is generic in; the examples
  below run the builder over it.
\<close>

typedef F7 = "{0 ..< 7 :: int}"
  by (rule exI [of _ 0]) simp

setup_lifting type_definition_F7

instantiation F7 :: field
begin

lift_definition zero_F7 :: F7 is 0 by simp
lift_definition one_F7 :: F7 is 1 by simp
lift_definition plus_F7 :: "F7 \<Rightarrow> F7 \<Rightarrow> F7" is "\<lambda>a b. (a + b) mod 7" by simp
lift_definition minus_F7 :: "F7 \<Rightarrow> F7 \<Rightarrow> F7" is "\<lambda>a b. (a - b) mod 7" by simp
lift_definition uminus_F7 :: "F7 \<Rightarrow> F7" is "\<lambda>a. (- a) mod 7" by simp
lift_definition times_F7 :: "F7 \<Rightarrow> F7 \<Rightarrow> F7" is "\<lambda>a b. (a * b) mod 7" by simp
lift_definition inverse_F7 :: "F7 \<Rightarrow> F7" is "\<lambda>a. (a ^ 5) mod 7" by simp
lift_definition divide_F7 :: "F7 \<Rightarrow> F7 \<Rightarrow> F7" is "\<lambda>a b. (a * ((b ^ 5) mod 7)) mod 7" by simp

instance
proof
  fix a b c :: F7
  show "a + b + c = a + (b + c)" by transfer (simp add: mod_simps algebra_simps)
  show "a + b = b + a" by transfer (simp add: algebra_simps)
  show "0 + a = a" by transfer simp
  show "- a + a = 0" by transfer (simp add: mod_simps)
  show "a - b = a + - b" by transfer (simp add: mod_simps)
  show "a * b * c = a * (b * c)" by transfer (simp add: mod_simps algebra_simps)
  show "a * b = b * a" by transfer (simp add: algebra_simps)
  show "1 * a = a" by transfer simp
  show "(a + b) * c = a * c + b * c" by transfer (simp add: mod_simps algebra_simps)
  show "(0::F7) \<noteq> 1" by transfer simp
  show "a \<noteq> 0 \<Longrightarrow> inverse a * a = 1"
  proof transfer
    fix a :: int
    assume "a \<in> {0..<7}" "a \<noteq> 0"
    then have "a = 1 \<or> a = 2 \<or> a = 3 \<or> a = 4 \<or> a = 5 \<or> a = 6" by auto
    then show "a ^ 5 mod 7 * a mod 7 = 1" by auto
  qed
  show "a div b = a * inverse b" by transfer simp
  show "inverse (0::F7) = 0" by transfer simp
qed

end

text \<open>
  Modelled from the spec: an instance of the bit decomposition (spec 6) for the field of seven
  elements and the width 3, to run \<^verbatim>\<open>Cmp\<close> on wires. For a term \<open>x\<close> it allocates three
  bits \<open>b0\<close>, \<open>b1\<close>, \<open>b2\<close> and two auxiliary wires \<open>u\<close>, \<open>d\<close>, asserts each bit boolean,
  and emits four gates: \<open>b0\<cdot>b1 - u = 0\<close> and \<open>u\<cdot>b2 = 0\<close>, which exclude the bits 111 of
  the number 7 (it is not below the modulus), and \<open>b0 + 2\<cdot>b1 - d = 0\<close> and
  \<open>d + 4\<cdot>b2 - x = 0\<close>, which recompose the operand. A constant is decomposed directly.
\<close>

definition ToBinary_F7 :: "F7 builder \<Rightarrow> F7 Variable \<Rightarrow> nat \<Rightarrow> (F7 Variable list, F7) result" where
  "ToBinary_F7 s v n =
     (if n \<noteq> 3 then (Inl (Error ''unsupported width''), s)
      else
        (case v of
           Constant c \<Rightarrow> (Inr (map (\<lambda>j. Constant (of_bool (bit (repr 7 c) j))) [0..<3]), s)
         | Wire t \<Rightarrow>
             let (b0, s1) = newInternalVariable s;
                 (b1, s2) = newInternalVariable s1;
                 (b2, s3) = newInternalVariable s2;
                 (u, s4) = newInternalVariable s3;
                 (d, s5) = newInternalVariable s4
             in bnd (AssertIsBoolean s5 (Wire b0)) (\<lambda>_ s6.
                bnd (AssertIsBoolean s6 (Wire b1)) (\<lambda>_ s7.
                bnd (AssertIsBoolean s7 (Wire b2)) (\<lambda>_ s8.
                  (Inr [Wire b0, Wire b1, Wire b2],
                   foldl addPlonkConstraint s8
                     [zeroR1C\<lparr>xa := VID b0, xb := VID b1, xc := VID u, qM := 1, qO := - 1\<rparr>,
                      zeroR1C\<lparr>xa := VID u, xb := VID b2, qM := 1\<rparr>,
                      zeroR1C\<lparr>xa := VID b0, xb := VID b1, xc := VID d,
                                qL := 1, qR := 2, qO := - 1\<rparr>,
                      zeroR1C\<lparr>xa := VID d, xb := VID b2, xc := VID t,
                                qL := 1, qR := 4, qO := - Coeff t\<rparr>]))))))"


lemma F7_eq_iff: "a = b \<longleftrightarrow> Rep_F7 a = Rep_F7 b"
  by (simp add: Rep_F7_inject)

lemma Rep_F7_of_nat: "Rep_F7 (of_nat n) = int n mod 7"
  by (induction n) (simp_all add: zero_F7.rep_eq one_F7.rep_eq plus_F7.rep_eq mod_simps algebra_simps)

lemma Rep_F7_numeral: "Rep_F7 (numeral n) = numeral n mod 7"
  using Rep_F7_of_nat [of "numeral n"] by simp

lemmas F7_simps = F7_eq_iff zero_F7.rep_eq one_F7.rep_eq plus_F7.rep_eq minus_F7.rep_eq
  uminus_F7.rep_eq times_F7.rep_eq inverse_F7.rep_eq divide_F7.rep_eq Rep_F7_numeral

section \<open>Satisfaction and the gates the helpers emit\<close>

text \<open>
  Every operation only appends gates, so an assignment that satisfies the gates after a call
  satisfies those before it. For each operation two facts are proved: what its result is worth
  under every satisfying assignment (soundness), and that it returns a result rather than a
  failure (totality).
\<close>

lemma eval_Constant [simp]: "eval w (Constant c) = c"
  by (simp add: eval_def)

lemma eval_Wire [simp]: "eval w (Wire t) = termVal w t"
  by (simp add: eval_def)

lemma satisfies_append [simp]: "satisfies w (xs @ ys) \<longleftrightarrow> satisfies w xs \<and> satisfies w ys"
  by (simp add: satisfies_def)

lemma satisfies_Nil [simp]: "satisfies w []"
  by (simp add: satisfies_def)

lemma satisfies_Cons [simp]: "satisfies w (g # gs) \<longleftrightarrow> gateHolds w g \<and> satisfies w gs"
  by (simp add: satisfies_def)

lemma satisfies_prefix: "prefix xs ys \<Longrightarrow> satisfies w ys \<Longrightarrow> satisfies w xs"
  by (auto elim!: prefixE)

lemma constraints_addPlonkConstraint [simp]:
  "constraints (addPlonkConstraint s g) = constraints s @ [g]"
  by (simp add: addPlonkConstraint_def)

lemma constraints_newInternalVariable:
  "newInternalVariable s = (t, s1) \<Longrightarrow> constraints s1 = constraints s \<and> Coeff t = 1 \<and> VID t = nbVariables s"
  by (auto simp: newInternalVariable_def)

lemma bnd_Inr:
  "bnd m f = (Inr r, s') \<Longrightarrow> \<exists>x s1. m = (Inr x, s1) \<and> f x s1 = (Inr r, s')"
  by (auto simp: bnd_def split: prod.splits sum.splits)

lemma bnd_Inr_eq [simp]: "bnd (Inr x, s) f = f x s"
  by (simp add: bnd_def)

lemma bnd_Inl_eq [simp]: "bnd (Inl e, s) f = (Inl e, s)"
  by (simp add: bnd_def)

lemma splitSum_sound:
  "splitSum s acc r k = (out, s') \<Longrightarrow>
     prefix (constraints s) (constraints s') \<and>
     (\<forall>w. satisfies w (constraints s') \<longrightarrow>
        termVal w out = termVal w acc + sum_list (map (termVal w) r) + (case k of None \<Rightarrow> 0 | Some c \<Rightarrow> c))"
proof (induction s acc r k arbitrary: out s' rule: splitSum.induct)
  case (1 s acc)
  then show ?case by simp
next
  case (2 s acc k)
  then show ?case
    by (auto simp: newInternalVariable_def gateHolds_def zeroR1C_def termVal_def algebra_simps
        add_eq_0_iff)
next
  case (3 s acc t r k)
  obtain out1 s1 where n: "newInternalVariable s = (out1, s1)" by (cases "newInternalVariable s")
  let ?g = "zeroR1C\<lparr>xa := VID acc, xb := VID t, xc := VID out1,
                      qL := Coeff acc, qR := Coeff t, qO := - 1\<rparr>"
  let ?s2 = "addPlonkConstraint s1 ?g"
  from 3(2) n have rec: "splitSum ?s2 out1 r k = (out, s')" by simp
  from "3.IH"[OF n[symmetric] refl refl rec]
  have p: "prefix (constraints ?s2) (constraints s')"
    and v: "\<And>w. satisfies w (constraints s') \<Longrightarrow>
        termVal w out = termVal w out1 + sum_list (map (termVal w) r) + (case k of None \<Rightarrow> 0 | Some c \<Rightarrow> c)"
    by auto
  have c2: "constraints ?s2 = constraints s @ [?g]"
    using constraints_newInternalVariable[OF n] by simp
  have p0: "prefix (constraints s) (constraints s')"
    using p c2 by (metis append_prefixD)
  have "termVal w out = termVal w acc + sum_list (map (termVal w) (t # r)) + (case k of None \<Rightarrow> 0 | Some c \<Rightarrow> c)"
    if sat: "satisfies w (constraints s')" for w
  proof -
    have "satisfies w (constraints ?s2)" using satisfies_prefix[OF p sat] .
    then have "gateHolds w ?g" using c2 by simp
    then have "termVal w out1 = termVal w acc + termVal w t"
      using constraints_newInternalVariable[OF n]
      by (simp add: gateHolds_def zeroR1C_def termVal_def algebra_simps add_eq_0_iff)
    with v[OF sat] show ?thesis by (simp add: algebra_simps)
  qed
  with p0 show ?case by blast
qed

lemma mergeTerm_sum:
  "sum_list (map (termVal w) (mergeTerm t acc)) = sum_list (map (termVal w) acc) + termVal w t"
  by (induction acc) (auto simp: termVal_def algebra_simps)

lemma mergeTerm_nonempty [simp]: "mergeTerm t acc \<noteq> []"
  by (cases acc) auto

lemma foldl_mergeTerm_sum:
  "sum_list (map (termVal w) (foldl (\<lambda>acc t. mergeTerm t acc) a l))
     = sum_list (map (termVal w) a) + sum_list (map (termVal w) l)"
  by (induction l arbitrary: a) (auto simp: mergeTerm_sum algebra_simps)

lemma reduce_sum: "sum_list (map (termVal w) (reduce l)) = sum_list (map (termVal w) l)"
  by (simp add: reduce_def foldl_mergeTerm_sum)

lemma foldl_mergeTerm_nonempty:
  "a \<noteq> [] \<or> l \<noteq> [] \<Longrightarrow> foldl (\<lambda>acc t. mergeTerm t acc) a l \<noteq> []"
  by (induction l arbitrary: a) auto

lemma reduce_nonempty: "l \<noteq> [] \<Longrightarrow> reduce l \<noteq> []"
  by (simp add: reduce_def foldl_mergeTerm_nonempty)

lemma filterConstantSum_sum:
  "filterConstantSum ops = (vs, k) \<Longrightarrow>
     sum_list (map (termVal w) vs) + k = sum_list (map (eval w) ops)"
  by (induction ops arbitrary: vs k rule: filterConstantSum.induct)
     (auto simp: termVal_def algebra_simps split: prod.splits if_splits)

lemma filterConstantProd_prod:
  "filterConstantProd ops = (vs, k) \<Longrightarrow>
     prod_list (map (termVal w) vs) * k = prod_list (map (eval w) ops)"
  by (induction ops arbitrary: vs k rule: filterConstantProd.induct)
     (auto simp: algebra_simps split: prod.splits if_splits)

lemma Add_sound:
  assumes "Add s i1 i2 ins = (Inr r, s')"
  shows "prefix (constraints s) (constraints s') \<and>
     (\<forall>w. satisfies w (constraints s') \<longrightarrow>
        eval w r = eval w i1 + eval w i2 + sum_list (map (eval w) ins))"
proof -
  obtain vars k where f: "filterConstantSum (i1 # i2 # ins) = (vars, k)"
    by (cases "filterConstantSum (i1 # i2 # ins)")
  note fs = filterConstantSum_sum[OF f]
  show ?thesis
  proof (cases "vars = []")
    case True
    with assms f fs show ?thesis
      by (auto simp: Add_def algebra_simps simp del: filterConstantSum.simps)
  next
    case False
    then obtain v0 rest where red: "reduce vars = v0 # rest"
      using reduce_nonempty[of vars] by (cases "reduce vars") auto
    obtain out s1 where sp: "splitSum s v0 rest (if k = 0 then None else Some k) = (out, s1)"
      by (cases "splitSum s v0 rest (if k = 0 then None else Some k)")
    from assms f False red sp have r: "r = Wire out" "s' = s1"
      by (auto simp: Add_def simp del: filterConstantSum.simps split: if_splits)
    from splitSum_sound[OF sp]
    have p: "prefix (constraints s) (constraints s1)"
      and v: "\<And>w. satisfies w (constraints s1) \<Longrightarrow>
        termVal w out = termVal w v0 + sum_list (map (termVal w) rest) + k"
      by (auto split: if_splits)
    have "sum_list (map (termVal w) vars) = termVal w v0 + sum_list (map (termVal w) rest)" for w
      using reduce_sum[of w vars] red by simp
    with v fs r p show ?thesis
      by (auto simp: algebra_simps simp del: filterConstantSum.simps)
  qed
qed

lemma Add_total: "\<exists>r s'. Add s i1 i2 ins = (Inr r, s')"
proof -
  obtain vars k where f: "filterConstantSum (i1 # i2 # ins) = (vars, k)"
    by (cases "filterConstantSum (i1 # i2 # ins)")
  show ?thesis
  proof (cases "vars = []")
    case True
    with f show ?thesis by (auto simp: Add_def simp del: filterConstantSum.simps)
  next
    case False
    then obtain v0 rest where red: "reduce vars = v0 # rest"
      using reduce_nonempty[of vars] by (cases "reduce vars") auto
    with f False show ?thesis
      by (auto simp: Add_def simp del: filterConstantSum.simps split: prod.splits)
  qed
qed

lemma splitProd_sound:
  "splitProd s acc r = (out, s') \<Longrightarrow>
     prefix (constraints s) (constraints s') \<and>
     (\<forall>w. satisfies w (constraints s') \<longrightarrow>
        termVal w out = termVal w acc * prod_list (map (termVal w) r))"
proof (induction s acc r arbitrary: out s' rule: splitProd.induct)
  case (1 s acc)
  then show ?case by simp
next
  case (2 s acc t r)
  obtain out1 s1 where n: "newInternalVariable s = (out1, s1)" by (cases "newInternalVariable s")
  let ?g = "zeroR1C\<lparr>xa := VID acc, xb := VID t, xc := VID out1,
                      qM := Coeff acc * Coeff t, qO := - 1\<rparr>"
  let ?s2 = "addPlonkConstraint s1 ?g"
  from 2(2) n have rec: "splitProd ?s2 out1 r = (out, s')" by simp
  from "2.IH"[OF n[symmetric] refl refl rec]
  have p: "prefix (constraints ?s2) (constraints s')"
    and v: "\<And>w. satisfies w (constraints s') \<Longrightarrow>
        termVal w out = termVal w out1 * prod_list (map (termVal w) r)"
    by auto
  have c2: "constraints ?s2 = constraints s @ [?g]"
    using constraints_newInternalVariable[OF n] by simp
  have p0: "prefix (constraints s) (constraints s')"
    using p c2 by (metis append_prefixD)
  have "termVal w out = termVal w acc * prod_list (map (termVal w) (t # r))"
    if sat: "satisfies w (constraints s')" for w
  proof -
    have "satisfies w (constraints ?s2)" using satisfies_prefix[OF p sat] .
    then have "gateHolds w ?g" using c2 by simp
    then have "termVal w out1 = termVal w acc * termVal w t"
      using constraints_newInternalVariable[OF n]
      by (simp add: gateHolds_def zeroR1C_def termVal_def algebra_simps add_eq_0_iff)
    with v[OF sat] show ?thesis by (simp add: algebra_simps)
  qed
  with p0 show ?case by blast
qed

lemma termVal_mulConstant [simp]: "termVal w (mulConstant t m) = termVal w t * m"
  by (simp add: termVal_def mulConstant_def)

lemma prod_list_zero_coeff:
  "list_ex (\<lambda>v. Coeff v = 0) vs \<Longrightarrow> prod_list (map (termVal w) vs) = 0"
  by (induction vs) (auto simp: termVal_def)

lemma Mul_sound:
  assumes "Mul s i1 i2 ins = (Inr r, s')"
  shows "prefix (constraints s) (constraints s') \<and>
     (\<forall>w. satisfies w (constraints s') \<longrightarrow>
        eval w r = eval w i1 * eval w i2 * prod_list (map (eval w) ins))"
proof -
  obtain vars k where f: "filterConstantProd (i1 # i2 # ins) = (vars, k)"
    by (cases "filterConstantProd (i1 # i2 # ins)")
  have fs: "prod_list (map (termVal w) vars) * k = eval w i1 * eval w i2 * prod_list (map (eval w) ins)" for w
    using filterConstantProd_prod[OF f, of w] by (simp add: algebra_simps)
  consider (a) "vars = []" | (b) "vars \<noteq> []" "k = 0"
    | (c) "vars \<noteq> []" "k \<noteq> 0" "list_ex (\<lambda>v. Coeff v = 0) vars"
    | (d) "vars \<noteq> []" "k \<noteq> 0" "\<not> list_ex (\<lambda>v. Coeff v = 0) vars" by blast
  then show ?thesis
  proof cases
    case a
    with assms f have "r = Constant k" "s' = s"
      by (auto simp: Mul_def simp del: filterConstantProd.simps)
    with fs a show ?thesis by auto
  next
    case b
    with assms f have "r = Constant 0" "s' = s"
      by (auto simp: Mul_def simp del: filterConstantProd.simps)
    with fs b show ?thesis by auto
  next
    case c
    with assms f have "r = Constant 0" "s' = s"
      by (auto simp: Mul_def simp del: filterConstantProd.simps)
    moreover have "prod_list (map (termVal w) vars) = 0" for w
      using prod_list_zero_coeff[OF c(3)] .
    ultimately show ?thesis using fs by (metis eval_Constant mult_zero_left prefix_order.refl)
  next
    case d
    then obtain v0 rest where vs: "vars = v0 # rest" by (cases vars) auto
    obtain out s1 where sp: "splitProd s (mulConstant v0 k) rest = (out, s1)"
      by (cases "splitProd s (mulConstant v0 k) rest")
    from assms f d vs sp have r: "r = Wire out" "s' = s1"
      by (auto simp: Mul_def simp del: filterConstantProd.simps)
    from splitProd_sound[OF sp]
    have p: "prefix (constraints s) (constraints s1)"
      and v: "\<And>w. satisfies w (constraints s1) \<Longrightarrow>
        termVal w out = termVal w v0 * k * prod_list (map (termVal w) rest)"
      by auto
    have "eval w r = eval w i1 * eval w i2 * prod_list (map (eval w) ins)"
      if "satisfies w (constraints s')" for w
      using v[of w] that r fs[of w] vs by (simp add: algebra_simps)
    with p r show ?thesis by blast
  qed
qed

lemma Mul_total: "\<exists>r s'. Mul s i1 i2 ins = (Inr r, s')"
proof -
  obtain vars k where f: "filterConstantProd (i1 # i2 # ins) = (vars, k)"
    by (cases "filterConstantProd (i1 # i2 # ins)")
  then show ?thesis
    by (cases vars) (auto simp: Mul_def simp del: filterConstantProd.simps split: prod.splits)
qed

lemma eval_Neg [simp]: "eval w (Neg v) = - eval w v"
  by (cases v) (simp_all add: Neg_def constantValue_def termVal_def)

lemma Sub_sound:
  assumes "Sub s i1 i2 [] = (Inr r, s')"
  shows "prefix (constraints s) (constraints s') \<and>
     (\<forall>w. satisfies w (constraints s') \<longrightarrow> eval w r = eval w i1 - eval w i2)"
  using assms Add_sound[of s i1 "Neg i2" "[]" r s']
  by (simp add: Sub_def neg_def)

lemma Sub_total: "\<exists>r s'. Sub s i1 i2 [] = (Inr r, s')"
  using Add_total[of s i1 "Neg i2" "[]"] by (simp add: Sub_def neg_def)

lemma MarkBoolean_constraints:
  "MarkBoolean s v = (Inr u, s') \<Longrightarrow> constraints s' = constraints s"
  by (cases v) (auto simp: MarkBoolean_def split: if_splits)

lemma MarkBoolean_Wire: "\<exists>s'. MarkBoolean s (Wire t) = (Inr (), s') \<and> constraints s' = constraints s"
  by (simp add: MarkBoolean_def)

lemma MarkBoolean_Constant:
  "c = 0 \<or> c = 1 \<Longrightarrow> MarkBoolean s (Constant c) = (Inr (), s)"
  by (auto simp: MarkBoolean_def IsBoolean_def)

lemma MarkBoolean_Constant_ok:
  "MarkBoolean s (Constant c) = (Inr u, s') \<Longrightarrow> c = 0 \<or> c = 1"
  by (auto simp: MarkBoolean_def IsBoolean_def split: if_splits)

lemma AssertIsBoolean_prefix:
  "AssertIsBoolean s v = (Inr u, s') \<Longrightarrow> prefix (constraints s) (constraints s')"
  by (cases v) (auto simp: AssertIsBoolean_def MarkBoolean_def split: if_splits)

lemma AssertIsBoolean_Constant_ok:
  "AssertIsBoolean s (Constant c) = (Inr u, s') \<Longrightarrow> c = 0 \<or> c = 1"
  by (auto simp: AssertIsBoolean_def split: if_splits)

lemma AssertIsBoolean_total:
  "(\<forall>c. v = Constant c \<longrightarrow> c = 0 \<or> c = 1) \<Longrightarrow> \<exists>s'. AssertIsBoolean s v = (Inr (), s')"
  by (cases v) (auto simp: AssertIsBoolean_def MarkBoolean_def)

lemma Mul_Constant_boolean:
  assumes "Mul s a b [] = (Inr (Constant c), s')"
    and "\<forall>c. a = Constant c \<longrightarrow> c = 0 \<or> c = 1"
    and "\<forall>c. b = Constant c \<longrightarrow> c = 0 \<or> c = 1"
  shows "c = 0 \<or> c = 1"
  using assms
  by (cases a; cases b) (auto simp: Mul_def split: if_splits prod.splits list.splits)

lemma And_sound:
  assumes "And s a b = (Inr r, s')"
  shows "prefix (constraints s) (constraints s') \<and>
     (\<forall>w. satisfies w (constraints s') \<longrightarrow> eval w r = eval w a * eval w b) \<and>
     (\<forall>c. r = Constant c \<longrightarrow> c = 0 \<or> c = 1)"
proof -
  from assms obtain u1 s1 where a1: "AssertIsBoolean s a = (Inr u1, s1)"
    and r1: "bnd (AssertIsBoolean s1 b) (\<lambda>_ s2.
       bnd (Mul s2 a b []) (\<lambda>res s3. bnd (MarkBoolean s3 res) (\<lambda>_ s4. (Inr res, s4)))) = (Inr r, s')"
    unfolding And_def by (blast dest: bnd_Inr)
  from r1 obtain u2 s2 where a2: "AssertIsBoolean s1 b = (Inr u2, s2)"
    and r2: "bnd (Mul s2 a b []) (\<lambda>res s3. bnd (MarkBoolean s3 res) (\<lambda>_ s4. (Inr res, s4))) = (Inr r, s')"
    by (blast dest: bnd_Inr)
  from r2 obtain res s3 where m: "Mul s2 a b [] = (Inr res, s3)"
    and r3: "bnd (MarkBoolean s3 res) (\<lambda>_ s4. (Inr res, s4)) = (Inr r, s')"
    by (blast dest: bnd_Inr)
  from r3 obtain u4 where mb: "MarkBoolean s3 res = (Inr u4, s')" and rr: "r = res"
    by (auto dest!: bnd_Inr)
  note p1 = AssertIsBoolean_prefix[OF a1]
  note p2 = AssertIsBoolean_prefix[OF a2]
  note ms = Mul_sound[OF m]
  note c4 = MarkBoolean_constraints[OF mb]
  have p: "prefix (constraints s) (constraints s')"
    using p1 p2 ms c4 by (metis prefix_order.trans)
  have v: "\<forall>w. satisfies w (constraints s') \<longrightarrow> eval w r = eval w a * eval w b"
    using ms c4 rr by simp
  have b: "\<forall>c. r = Constant c \<longrightarrow> c = 0 \<or> c = 1"
    using MarkBoolean_Constant_ok mb rr by blast
  from p v b show ?thesis by blast
qed

lemma And_total:
  assumes "\<forall>c. a = Constant c \<longrightarrow> c = 0 \<or> c = 1"
    and "\<forall>c. b = Constant c \<longrightarrow> c = 0 \<or> c = 1"
  shows "\<exists>r s'. And s a b = (Inr r, s')"
proof -
  obtain s1 where a1: "AssertIsBoolean s a = (Inr (), s1)"
    using AssertIsBoolean_total[OF assms(1)] by blast
  obtain s2 where a2: "AssertIsBoolean s1 b = (Inr (), s2)"
    using AssertIsBoolean_total[OF assms(2)] by blast
  obtain res s3 where m: "Mul s2 a b [] = (Inr res, s3)"
    using Mul_total by blast
  have "\<exists>s4. MarkBoolean s3 res = (Inr (), s4)"
  proof (cases res)
    case (Constant c)
    with Mul_Constant_boolean[OF _ assms] m have "c = 0 \<or> c = 1" by blast
    with Constant show ?thesis using MarkBoolean_Constant by blast
  next
    case (Wire t)
    then show ?thesis using MarkBoolean_Wire by blast
  qed
  then obtain s4 where "MarkBoolean s3 res = (Inr (), s4)" by blast
  with a1 a2 m show ?thesis by (simp add: And_def)
qed

lemma Select_sound:
  assumes "Select s b i1 i2 = (Inr r, s')"
  shows "prefix (constraints s) (constraints s') \<and>
     (\<forall>w. satisfies w (constraints s') \<longrightarrow>
        eval w r = eval w b * (eval w i1 - eval w i2) + eval w i2)"
proof (cases b)
  case (Constant cb)
  with assms show ?thesis
    by (auto simp: Select_def constantValue_def IsBoolean_def split: if_splits)
next
  case (Wire t)
  with assms have r0: "bnd (AssertIsBoolean s b) (\<lambda>_ s1.
          bnd (Sub s1 i1 i2 []) (\<lambda>u s2. bnd (Mul s2 u b []) (\<lambda>l s3. Add s3 l i2 []))) = (Inr r, s')"
    by (simp add: Select_def constantValue_def)
  then obtain u1 s1 where a1: "AssertIsBoolean s b = (Inr u1, s1)"
    and r1: "bnd (Sub s1 i1 i2 []) (\<lambda>u s2. bnd (Mul s2 u b []) (\<lambda>l s3. Add s3 l i2 [])) = (Inr r, s')"
    by (blast dest: bnd_Inr)
  from r1 obtain u s2 where sb: "Sub s1 i1 i2 [] = (Inr u, s2)"
    and r2: "bnd (Mul s2 u b []) (\<lambda>l s3. Add s3 l i2 []) = (Inr r, s')"
    by (blast dest: bnd_Inr)
  from r2 obtain l s3 where m: "Mul s2 u b [] = (Inr l, s3)"
    and ad: "Add s3 l i2 [] = (Inr r, s')"
    by (blast dest: bnd_Inr)
  note p1 = AssertIsBoolean_prefix[OF a1]
  note ss = Sub_sound[OF sb]
  note ms = Mul_sound[OF m]
  note as = Add_sound[OF ad]
  have p: "prefix (constraints s) (constraints s')"
    using p1 ss ms as by (metis prefix_order.trans)
  have "eval w r = eval w b * (eval w i1 - eval w i2) + eval w i2"
    if sat: "satisfies w (constraints s')" for w
  proof -
    have sat3: "satisfies w (constraints s3)" using as sat satisfies_prefix by blast
    have sat2: "satisfies w (constraints s2)" using ms sat3 satisfies_prefix by blast
    have e1: "eval w u = eval w i1 - eval w i2" using ss sat2 by blast
    have e2: "eval w l = eval w u * eval w b" using ms sat3 by simp
    have e3: "eval w r = eval w l + eval w i2" using as sat by simp
    show ?thesis unfolding e3 e2 e1 by (simp add: mult.commute)
  qed
  with p show ?thesis by blast
qed

lemma Select_total:
  assumes "\<forall>c. b = Constant c \<longrightarrow> c = 0 \<or> c = 1"
  shows "\<exists>r s'. Select s b i1 i2 = (Inr r, s')"
proof (cases b)
  case (Constant cb)
  with assms show ?thesis by (auto simp: Select_def constantValue_def IsBoolean_def)
next
  case (Wire t)
  obtain s1 where a1: "AssertIsBoolean s b = (Inr (), s1)"
    using AssertIsBoolean_total[OF assms] by blast
  obtain u s2 where sb: "Sub s1 i1 i2 [] = (Inr u, s2)" using Sub_total by blast
  obtain l s3 where m: "Mul s2 u b [] = (Inr l, s3)" using Mul_total by blast
  obtain r s4 where ad: "Add s3 l i2 [] = (Inr r, s4)" using Add_total by blast
  from Wire a1 sb m ad show ?thesis by (simp add: Select_def constantValue_def)
qed

section \<open>IsZero\<close>

lemma IsZero_Constant: "IsZero s (Constant c) = (Inr (Constant (if c = 0 then 1 else 0)), s)"
  by (simp add: IsZero_def)

lemma IsZero_Wire:
  "IsZero s (Wire a) =
     (Inr (Wire \<lparr>VID = nbVariables s, Coeff = 1\<rparr>),
      s\<lparr>nbVariables := Suc (Suc (nbVariables s)),
        hints := hints s @ [\<lparr>hintId = InvZeroHint, hintInputs = [Wire a],
                             hintOutputs = [Suc (nbVariables s)]\<rparr>],
        constraints := constraints s @
          [\<lparr>xa = VID a, xb = Suc (nbVariables s), xc = nbVariables s,
            qL = 0, qR = 0, qO = 1, qM = Coeff a, qC = - 1, commitment = NOT\<rparr>,
           \<lparr>xa = VID a, xb = nbVariables s, xc = 0,
            qL = 0, qR = 0, qO = 0, qM = Coeff a, qC = 0, commitment = NOT\<rparr>],
        mtBooleans := mtBooleans s @ [\<lparr>VID = nbVariables s, Coeff = 1\<rparr>]\<rparr>)"
  by (simp add: IsZero_def newInternalVariable_def NewHint_def addPlonkConstraint_def
      MarkBoolean_def zeroR1C_def Let_def upt_rec)

lemma IsZero_gates_sound:
  fixes w :: "nat \<Rightarrow> 'a::field"
  assumes "gateHolds w \<lparr>xa = v, xb = i, xc = m,
            qL = 0, qR = 0, qO = 1, qM = c, qC = - 1, commitment = NOT\<rparr>"
    and "gateHolds w \<lparr>xa = v, xb = m, xc = 0,
            qL = 0, qR = 0, qO = 0, qM = c, qC = 0, commitment = NOT\<rparr>"
  shows "w m = (if c * w v = 0 then 1 else 0)"
proof (cases "c * w v = 0")
  case True
  with assms(1) show ?thesis by (simp add: gateHolds_def)
next
  case False
  with assms(2) show ?thesis by (simp add: gateHolds_def)
qed

text \<open>
  C1. \<^verbatim>\<open>IsZero\<close> resolves a constant operand directly, to 1 if it is zero and to 0 otherwise,
  and emits nothing. For a term \<open>a\<close> it allocates the result \<open>m\<close>, requests one hint
  \<^verbatim>\<open>InvZeroHint\<close> with the single output \<open>inv\<close>, emits exactly the two gates
  \<open>a\<cdot>inv + m - 1 = 0\<close> and \<open>a\<cdot>m = 0\<close>, and marks \<open>m\<close> boolean. Under every
  assignment that satisfies the gates, \<open>m = 1\<close> if and only if \<open>a = 0\<close>; and the assignment
  in which the hint gives \<open>inv = 1/a\<close> (0 for \<open>a = 0\<close>) and \<open>m\<close> is the indicator of
  \<open>a = 0\<close> satisfies both gates.
\<close>

theorem IsZero_indicator:
  fixes s :: "'a::field builder" and a :: "'a Term"
  shows "IsZero s (Constant c) = (Inr (Constant (if c = 0 then 1 else 0)), s) \<and>
    (\<exists>s'. IsZero s (Wire a) = (Inr (Wire \<lparr>VID = nbVariables s, Coeff = 1\<rparr>), s') \<and>
       hints s' = hints s @ [\<lparr>hintId = InvZeroHint, hintInputs = [Wire a],
                               hintOutputs = [Suc (nbVariables s)]\<rparr>] \<and>
       constraints s' = constraints s @
          [\<lparr>xa = VID a, xb = Suc (nbVariables s), xc = nbVariables s,
            qL = 0, qR = 0, qO = 1, qM = Coeff a, qC = - 1, commitment = NOT\<rparr>,
           \<lparr>xa = VID a, xb = nbVariables s, xc = 0,
            qL = 0, qR = 0, qO = 0, qM = Coeff a, qC = 0, commitment = NOT\<rparr>] \<and>
       IsBoolean s' (Wire \<lparr>VID = nbVariables s, Coeff = 1\<rparr>) \<and>
       (\<forall>w. satisfies w (emitted s s') \<longleftrightarrow>
              eval w (Wire a) * w (Suc (nbVariables s)) + w (nbVariables s) - 1 = 0 \<and>
              eval w (Wire a) * w (nbVariables s) = 0) \<and>
       (\<forall>w. satisfies w (constraints s') \<longrightarrow>
              (eval w (Wire \<lparr>VID = nbVariables s, Coeff = 1\<rparr>) = 1 \<longleftrightarrow> eval w (Wire a) = 0)) \<and>
       (\<forall>w. VID a < nbVariables s \<longrightarrow>
              satisfies (w(Suc (nbVariables s) := inverse (eval w (Wire a)),
                           nbVariables s := (if eval w (Wire a) = 0 then 1 else 0)))
                (emitted s s')))"
proof -
  let ?n = "nbVariables s"
  let ?g1 = "\<lparr>xa = VID a, xb = Suc ?n, xc = ?n,
            qL = 0, qR = 0, qO = 1, qM = Coeff a, qC = - 1, commitment = NOT\<rparr>"
  let ?g2 = "\<lparr>xa = VID a, xb = ?n, xc = 0,
            qL = 0, qR = 0, qO = 0, qM = Coeff a, qC = 0, commitment = NOT\<rparr>"
  obtain s' where run: "IsZero s (Wire a) = (Inr (Wire \<lparr>VID = ?n, Coeff = 1\<rparr>), s')"
    and h: "hints s' = hints s @ [\<lparr>hintId = InvZeroHint, hintInputs = [Wire a],
                               hintOutputs = [Suc ?n]\<rparr>]"
    and c: "constraints s' = constraints s @ [?g1, ?g2]"
    and b: "mtBooleans s' = mtBooleans s @ [\<lparr>VID = ?n, Coeff = 1\<rparr>]"
    by (simp add: IsZero_Wire)
  have em: "emitted s s' = [?g1, ?g2]" by (simp add: emitted_def c)
  have shape: "satisfies w (emitted s s') \<longleftrightarrow>
              eval w (Wire a) * w (Suc ?n) + w ?n - 1 = 0 \<and> eval w (Wire a) * w ?n = 0" for w
    by (simp add: em gateHolds_def termVal_def algebra_simps)
  have snd: "eval w (Wire \<lparr>VID = ?n, Coeff = 1\<rparr>) = 1 \<longleftrightarrow> eval w (Wire a) = 0"
    if "satisfies w (constraints s')" for w
  proof -
    from that c have "gateHolds w ?g1" "gateHolds w ?g2" by simp_all
    from IsZero_gates_sound[OF this] show ?thesis by (simp add: termVal_def)
  qed
  have cmp: "satisfies (w(Suc ?n := inverse (eval w (Wire a)),
                           ?n := (if eval w (Wire a) = 0 then 1 else 0))) (emitted s s')"
    if "VID a < ?n" for w
  proof -
    have "x * inverse x + (if x = 0 then 1 else 0) - 1 = 0
          \<and> x * (if x = 0 then 1 else 0) = 0" for x :: 'a
      by simp
    from this[of "Coeff a * w (VID a)"] that show ?thesis
      by (simp add: em gateHolds_def termVal_def del: mult_eq_0_iff inverse_mult_distrib
          split del: if_split)
  qed
  from run h c b shape snd cmp show ?thesis
    by (simp add: IsZero_Constant IsBoolean_def del: eval_Wire)
qed

theorem IsZero_indicator_witness:
  "\<exists>s'. IsZero \<lparr>constraints = [], nbVariables = 1, hints = [], mtBooleans = [],
                 commitments = [], fieldBitLen = 3, fieldModulus = 7\<rparr>
               (Wire \<lparr>VID = 0, Coeff = 3 :: F7\<rparr>)
            = (Inr (Wire \<lparr>VID = 1, Coeff = 1\<rparr>), s') \<and>
        satisfies (\<lambda>i. if i = 1 then 1 else 0) (constraints s') \<and>
        eval (\<lambda>i. if i = 1 then 1 else 0) (Wire \<lparr>VID = 1, Coeff = 1 :: F7\<rparr>) = 1 \<and>
        eval (\<lambda>i. if i = 1 then 1 else 0) (Wire \<lparr>VID = 0, Coeff = 3 :: F7\<rparr>) = 0"
  using IsZero_indicator [of "\<lparr>constraints = [], nbVariables = 1, hints = [], mtBooleans = [],
                 commitments = [], fieldBitLen = 3, fieldModulus = 7\<rparr>" 0
               "\<lparr>VID = 0, Coeff = 3 :: F7\<rparr>"]
  by (auto simp: gateHolds_def termVal_def)

section \<open>Mul\<close>

lemma filterConstantProd_wires:
  "set (fst (filterConstantProd ops)) = {t. Wire t \<in> set ops}"
  by (induction ops rule: filterConstantProd.induct) (auto split: prod.splits)

text \<open>
  C4. When the operands of \<^verbatim>\<open>Mul\<close> contain at least one term, and the folded constant
  factor is zero or some term has the coefficient zero, \<^verbatim>\<open>Mul\<close> returns the constant 0 and
  leaves the builder as it was: no gate is emitted, whatever the other terms are.
\<close>

theorem Mul_zero_short_circuit:
  assumes "\<exists>t. Wire t \<in> set (i1 # i2 # ins)"
    and "snd (filterConstantProd (i1 # i2 # ins)) = 0
         \<or> (\<exists>t. Wire t \<in> set (i1 # i2 # ins) \<and> Coeff t = 0)"
  shows "Mul s i1 i2 ins = (Inr (Constant 0), s)"
proof -
  obtain vars k where f: "filterConstantProd (i1 # i2 # ins) = (vars, k)"
    by (cases "filterConstantProd (i1 # i2 # ins)")
  have vs: "set vars = {t. Wire t \<in> set (i1 # i2 # ins)}"
    using filterConstantProd_wires [of "i1 # i2 # ins"] f by simp
  with assms(1) have ne: "vars \<noteq> []" by auto
  from assms(2) f vs have "k = 0 \<or> list_ex (\<lambda>v. Coeff v = 0) vars"
    by (auto simp: list_ex_iff)
  with ne f show ?thesis
    unfolding Mul_def by (auto simp del: filterConstantProd.simps)
qed

theorem Mul_zero_short_circuit_witness:
  "(\<exists>t. Wire t \<in> set [Wire \<lparr>VID = 0, Coeff = 3 :: F7\<rparr>, Constant 0, Wire \<lparr>VID = 1, Coeff = 2\<rparr>]) \<and>
   snd (filterConstantProd [Wire \<lparr>VID = 0, Coeff = 3 :: F7\<rparr>, Constant 0, Wire \<lparr>VID = 1, Coeff = 2\<rparr>]) = 0 \<and>
   Mul \<lparr>constraints = [], nbVariables = 2, hints = [], mtBooleans = [],
        commitments = [], fieldBitLen = 3, fieldModulus = 7\<rparr>
       (Wire \<lparr>VID = 0, Coeff = 3 :: F7\<rparr>) (Constant 0) [Wire \<lparr>VID = 1, Coeff = 2\<rparr>]
     = (Inr (Constant 0),
        \<lparr>constraints = [], nbVariables = 2, hints = [], mtBooleans = [],
         commitments = [], fieldBitLen = 3, fieldModulus = 7\<rparr>)"
proof -
  have h1: "\<exists>t. Wire t \<in> set [Wire \<lparr>VID = 0, Coeff = 3 :: F7\<rparr>, Constant 0, Wire \<lparr>VID = 1, Coeff = 2\<rparr>]"
    by auto
  have h2: "snd (filterConstantProd [Wire \<lparr>VID = 0, Coeff = 3 :: F7\<rparr>, Constant 0, Wire \<lparr>VID = 1, Coeff = 2\<rparr>]) = 0"
    by simp
  from h1 h2 Mul_zero_short_circuit [OF h1 disjI1 [OF h2]] show ?thesis
    by blast
qed

section \<open>Division by a constant zero\<close>

text \<open>
  C7. \<^verbatim>\<open>Inverse\<close>, \<^verbatim>\<open>DivUnchecked\<close> and \<^verbatim>\<open>Div\<close> panic when the operand to invert, or
  the divisor, is the constant zero, and the builder is as it was before the call: the failing
  call has emitted no gate.
\<close>

theorem zero_divisor_panics:
  "Inverse s (Constant 0) = (Inl (Panic ''inverse by constant(0)''), s)
   \<and> DivUnchecked s i1 (Constant 0) = (Inl (Panic ''inverse by constant(0)''), s)
   \<and> Div s i1 (Constant 0) = (Inl (Panic ''inverse by constant(0)''), s)"
  by (cases i1) (simp_all add: Inverse_def DivUnchecked_def Div_def bnd_def)

section \<open>Div and DivUnchecked\<close>

lemma emitted_append: "constraints s1 = constraints s @ gs \<Longrightarrow> emitted s s1 = gs"
  by (simp add: emitted_def)

lemma Inverse_Wire:
  "Inverse s (Wire t) =
     (Inr (Wire \<lparr>VID = nbVariables s, Coeff = 1\<rparr>),
      s\<lparr>nbVariables := Suc (nbVariables s),
        constraints := constraints s @
          [\<lparr>xa = nbVariables s, xb = VID t, xc = 0,
            qL = 0, qR = 0, qO = 0, qM = Coeff t, qC = - 1, commitment = NOT\<rparr>]\<rparr>)"
  by (simp add: Inverse_def newInternalVariable_def addPlonkConstraint_def zeroR1C_def)

lemma DivUnchecked_Wire_Wire:
  "DivUnchecked s (Wire t1) (Wire t2) =
     (Inr (Wire \<lparr>VID = nbVariables s, Coeff = 1\<rparr>),
      s\<lparr>nbVariables := Suc (nbVariables s),
        constraints := constraints s @
          [\<lparr>xa = nbVariables s, xb = VID t2, xc = VID t1,
            qL = 0, qR = 0, qO = - Coeff t1, qM = Coeff t2, qC = 0, commitment = NOT\<rparr>]\<rparr>)"
  by (simp add: DivUnchecked_def newInternalVariable_def addPlonkConstraint_def zeroR1C_def)

lemma DivUnchecked_Constant_Wire:
  "DivUnchecked s (Constant c1) (Wire t2) =
     (Inr (Wire \<lparr>VID = nbVariables s, Coeff = c1\<rparr>),
      s\<lparr>nbVariables := Suc (nbVariables s),
        constraints := constraints s @
          [\<lparr>xa = nbVariables s, xb = VID t2, xc = 0,
            qL = 0, qR = 0, qO = 0, qM = Coeff t2, qC = - 1, commitment = NOT\<rparr>]\<rparr>)"
  by (simp add: DivUnchecked_def Inverse_Wire mulConstant_def)

lemma inverse_gate_nonzero:
  fixes w :: "nat \<Rightarrow> 'a::field"
  assumes "gateHolds w \<lparr>xa = r, xb = VID t, xc = 0,
            qL = 0, qR = 0, qO = 0, qM = Coeff t, qC = - 1, commitment = NOT\<rparr>"
  shows "termVal w t \<noteq> 0"
  using assms by (auto simp: gateHolds_def termVal_def)




section \<open>MulAcc\<close>

lemma MulAcc_fast:
  assumes "VID ta = VID tc \<or> VID ta = VID tb"
  shows "MulAcc s (Wire ta) (Wire tb) (Wire tc) =
     (Inr (Wire \<lparr>VID = nbVariables s, Coeff = 1\<rparr>),
      s\<lparr>nbVariables := Suc (nbVariables s),
        constraints := constraints s @
          [\<lparr>xa = VID ta, xb = (if VID ta = VID tb then VID tc else VID tb),
            xc = nbVariables s, qL = Coeff ta, qR = 0, qO = - 1,
            qM = Coeff tb * Coeff tc, qC = 0, commitment = NOT\<rparr>]\<rparr>)"
  using assms
  by (auto simp: MulAcc_def mulAccFastTrack_def newInternalVariable_def addPlonkConstraint_def
      mult.commute)

lemma MulAcc_general_sound:
  "\<exists>rg sg. bnd (Mul s b c []) (\<lambda>bc s1. Add s1 a bc []) = (Inr rg, sg) \<and>
     (\<forall>w. satisfies w (constraints sg) \<longrightarrow> eval w rg = eval w a + eval w b * eval w c)"
proof -
  obtain bc s1 where m: "Mul s b c [] = (Inr bc, s1)" using Mul_total by blast
  obtain rg sg where ad: "Add s1 a bc [] = (Inr rg, sg)" using Add_total by blast
  note ms = Mul_sound[OF m]
  note as = Add_sound[OF ad]
  have "eval w rg = eval w a + eval w b * eval w c" if sat: "satisfies w (constraints sg)" for w
  proof -
    have "satisfies w (constraints s1)" using as sat satisfies_prefix by blast
    then have "eval w bc = eval w b * eval w c" using ms by simp
    moreover have "eval w rg = eval w a + eval w bc" using as sat by simp
    ultimately show ?thesis by simp
  qed
  with m ad show ?thesis by simp
qed

text \<open>
  C6. When \<open>a\<close>, \<open>b\<close> and \<open>c\<close> are terms and \<open>a\<close> shares its wire with \<open>c\<close> or with
  \<open>b\<close>, \<^verbatim>\<open>MulAcc\<close> takes the fast path: it emits exactly one gate, with \<open>qL\<close> the
  coefficient of \<open>a\<close>, \<open>qM\<close> the product of the coefficients of \<open>b\<close> and \<open>c\<close>, and
  \<open>qO = -1\<close>. Under every assignment satisfying that gate the result is \<open>a + b\<cdot>c\<close>; the
  general construction \<^verbatim>\<open>Add(a, Mul(b, c))\<close>, run from the same builder, returns a result
  that is \<open>a + b\<cdot>c\<close> under every assignment satisfying its gates; so the two results agree
  whenever the two assignments agree on the wires of \<open>a\<close>, \<open>b\<close> and \<open>c\<close>.
\<close>

theorem MulAcc_fast_path:
  fixes s :: "'a::field builder"
  assumes "VID ta = VID tc \<or> VID ta = VID tb"
  shows "\<exists>s' rg sg.
     MulAcc s (Wire ta) (Wire tb) (Wire tc) = (Inr (Wire \<lparr>VID = nbVariables s, Coeff = 1\<rparr>), s') \<and>
     constraints s' = constraints s @
       [\<lparr>xa = VID ta, xb = (if VID ta = VID tb then VID tc else VID tb),
         xc = nbVariables s, qL = Coeff ta, qR = 0, qO = - 1,
         qM = Coeff tb * Coeff tc, qC = 0, commitment = NOT\<rparr>] \<and>
     bnd (Mul s (Wire tb) (Wire tc) []) (\<lambda>bc s1. Add s1 (Wire ta) bc []) = (Inr rg, sg) \<and>
     (\<forall>w. satisfies w (emitted s s') \<longrightarrow>
        eval w (Wire \<lparr>VID = nbVariables s, Coeff = 1\<rparr>)
          = eval w (Wire ta) + eval w (Wire tb) * eval w (Wire tc)) \<and>
     (\<forall>w. satisfies w (constraints sg) \<longrightarrow>
        eval w rg = eval w (Wire ta) + eval w (Wire tb) * eval w (Wire tc)) \<and>
     (\<forall>w w'. satisfies w (constraints s') \<and> satisfies w' (constraints sg) \<and>
        w (VID ta) = w' (VID ta) \<and> w (VID tb) = w' (VID tb) \<and> w (VID tc) = w' (VID tc) \<longrightarrow>
        eval w (Wire \<lparr>VID = nbVariables s, Coeff = 1\<rparr>) = eval w' rg)"
proof -
  let ?n = "nbVariables s"
  let ?g = "\<lparr>xa = VID ta, xb = (if VID ta = VID tb then VID tc else VID tb),
         xc = ?n, qL = Coeff ta, qR = 0, qO = - 1,
         qM = Coeff tb * Coeff tc, qC = 0, commitment = NOT\<rparr>"
  obtain s' where run: "MulAcc s (Wire ta) (Wire tb) (Wire tc) = (Inr (Wire \<lparr>VID = ?n, Coeff = 1\<rparr>), s')"
    and c: "constraints s' = constraints s @ [?g]"
    using MulAcc_fast[OF assms, of s] by simp
  have em: "emitted s s' = [?g]" using c by (simp add: emitted_def)
  obtain rg sg where gen: "bnd (Mul s (Wire tb) (Wire tc) []) (\<lambda>bc s1. Add s1 (Wire ta) bc []) = (Inr rg, sg)"
    and gs: "\<And>w. satisfies w (constraints sg) \<Longrightarrow>
        eval w rg = eval w (Wire ta) + eval w (Wire tb) * eval w (Wire tc)"
    using MulAcc_general_sound[of s "Wire tb" "Wire tc" "Wire ta"] by blast
  have gh: "w ?n = termVal w ta + termVal w tb * termVal w tc" if "gateHolds w ?g" for w
    using that assms
    by (auto simp: gateHolds_def termVal_def algebra_simps add_eq_0_iff split: if_splits)
  have fs: "eval w (Wire \<lparr>VID = ?n, Coeff = 1\<rparr>)
          = eval w (Wire ta) + eval w (Wire tb) * eval w (Wire tc)"
    if "satisfies w (emitted s s')" for w
    using gh[of w] that by (simp add: em termVal_def)
  have fs': "eval w (Wire \<lparr>VID = ?n, Coeff = 1\<rparr>)
          = eval w (Wire ta) + eval w (Wire tb) * eval w (Wire tc)"
    if "satisfies w (constraints s')" for w
    using fs[of w] that by (simp add: c em)
  have cross: "eval w (Wire \<lparr>VID = ?n, Coeff = 1\<rparr>) = eval w' rg"
    if "satisfies w (constraints s')" "satisfies w' (constraints sg)"
      "w (VID ta) = w' (VID ta)" "w (VID tb) = w' (VID tb)" "w (VID tc) = w' (VID tc)" for w w'
    using fs'[OF that(1)] gs[OF that(2)] that(3-5) by (simp add: termVal_def)
  from run c gen fs gs cross show ?thesis by blast
qed

theorem MulAcc_fast_path_witness:
  "VID \<lparr>VID = 0, Coeff = 2 :: F7\<rparr> = VID \<lparr>VID = 0, Coeff = 5 :: F7\<rparr> \<and>
   (\<exists>s'. MulAcc \<lparr>constraints = [], nbVariables = 2, hints = [], mtBooleans = [],
                 commitments = [], fieldBitLen = 3, fieldModulus = 7\<rparr>
            (Wire \<lparr>VID = 0, Coeff = 2 :: F7\<rparr>) (Wire \<lparr>VID = 1, Coeff = 3\<rparr>)
            (Wire \<lparr>VID = 0, Coeff = 5\<rparr>)
          = (Inr (Wire \<lparr>VID = 2, Coeff = 1\<rparr>), s') \<and>
        constraints s' = [\<lparr>xa = 0, xb = 1, xc = 2, qL = 2, qR = 0, qO = - 1, qM = 3 * 5,
                           qC = 0, commitment = NOT\<rparr>] \<and>
        satisfies (\<lambda>i. if i = 2 then 3 else 1) (constraints s') \<and>
        eval (\<lambda>i. if i = 2 then 3 else 1) (Wire \<lparr>VID = 2, Coeff = 1 :: F7\<rparr>)
          = eval (\<lambda>i. if i = 2 then 3 else 1) (Wire \<lparr>VID = 0, Coeff = 2\<rparr>)
            + eval (\<lambda>i. if i = 2 then 3 else 1) (Wire \<lparr>VID = 1, Coeff = 3\<rparr>)
              * eval (\<lambda>i. if i = 2 then 3 else 1) (Wire \<lparr>VID = 0, Coeff = 5\<rparr>))"
proof -
  let ?s = "\<lparr>constraints = [], nbVariables = 2, hints = [], mtBooleans = [],
            commitments = [], fieldBitLen = 3, fieldModulus = 7\<rparr> :: F7 builder"
  let ?ta = "\<lparr>VID = 0, Coeff = 2 :: F7\<rparr>"
  let ?tb = "\<lparr>VID = 1, Coeff = 3 :: F7\<rparr>"
  let ?tc = "\<lparr>VID = 0, Coeff = 5 :: F7\<rparr>"
  let ?w = "\<lambda>i::nat. if i = 2 then 3 else 1 :: F7"
  have h: "VID ?ta = VID ?tc \<or> VID ?ta = VID ?tb" by simp
  from MulAcc_fast_path [OF h, of ?s]
  obtain s' where
        r: "MulAcc ?s (Wire ?ta) (Wire ?tb) (Wire ?tc)
              = (Inr (Wire \<lparr>VID = nbVariables ?s, Coeff = 1\<rparr>), s')"
    and e: "constraints s' = constraints ?s @
       [\<lparr>xa = VID ?ta, xb = (if VID ?ta = VID ?tb then VID ?tc else VID ?tb),
         xc = nbVariables ?s, qL = Coeff ?ta, qR = 0, qO = - 1,
         qM = Coeff ?tb * Coeff ?tc, qC = 0, commitment = NOT\<rparr>]"
    and v: "\<forall>w. satisfies w (emitted ?s s') \<longrightarrow>
        eval w (Wire \<lparr>VID = nbVariables ?s, Coeff = 1\<rparr>)
          = eval w (Wire ?ta) + eval w (Wire ?tb) * eval w (Wire ?tc)"
    by blast
  have c: "emitted ?s s' = constraints s'" by (simp add: emitted_def)
  have sat: "satisfies ?w (emitted ?s s')"
    by (simp add: c e gateHolds_def F7_simps)
  from v [rule_format, OF sat] r sat show ?thesis
    by (intro conjI exI [of _ s']) (simp_all add: c e)
qed

section \<open>Xor, Or and And with constant operands\<close>

lemma AssertIsBoolean_Wire:
  "AssertIsBoolean s (Wire t) =
     (Inr (), if t \<in> set (mtBooleans s) then s
              else s\<lparr>mtBooleans := mtBooleans s @ [t],
                     constraints := constraints s @
                       [\<lparr>xa = VID t, xb = VID t, xc = 0, qL = Coeff t, qR = 0, qO = 0,
                         qM = - (Coeff t * Coeff t), qC = 0, commitment = NOT\<rparr>]\<rparr>)"
  by (simp add: AssertIsBoolean_def IsBoolean_def MarkBoolean_def addPlonkConstraint_def zeroR1C_def)

lemma AssertIsBoolean_Constant:
  "c = 0 \<or> c = 1 \<Longrightarrow> AssertIsBoolean s (Constant c) = (Inr (), s)"
  by (auto simp: AssertIsBoolean_def)

lemma AssertIsBoolean_Wire_nbVariables:
  "AssertIsBoolean s (Wire t) = (Inr (), s1) \<Longrightarrow> nbVariables s1 = nbVariables s"
  by (auto simp: AssertIsBoolean_Wire split: if_splits)

lemma Xor_Wire_Constant:
  assumes "c = 0 \<or> c = 1" and "AssertIsBoolean s (Wire t) = (Inr (), s1)"
  shows "\<exists>s'. Xor s (Wire t) (Constant c) = (Inr (Wire \<lparr>VID = nbVariables s, Coeff = 1\<rparr>), s') \<and>
     constraints s' = constraints s1 @
        [\<lparr>xa = VID t, xb = 0, xc = nbVariables s, qL = (1 - c - c) * Coeff t,
          qR = 0, qO = - 1, qM = 0, qC = c, commitment = NOT\<rparr>]"
  using assms AssertIsBoolean_Wire_nbVariables[OF assms(2)]
  by (auto simp: Xor_def AssertIsBoolean_Constant constantValue_def newInternalVariable_def
      MarkBoolean_def addPlonkConstraint_def zeroR1C_def)

lemma Xor_Constant_Wire:
  assumes "c = 0 \<or> c = 1" and "AssertIsBoolean s (Wire t) = (Inr (), s1)"
  shows "\<exists>s'. Xor s (Constant c) (Wire t) = (Inr (Wire \<lparr>VID = nbVariables s, Coeff = 1\<rparr>), s') \<and>
     constraints s' = constraints s1 @
        [\<lparr>xa = VID t, xb = 0, xc = nbVariables s, qL = (1 - c - c) * Coeff t,
          qR = 0, qO = - 1, qM = 0, qC = c, commitment = NOT\<rparr>]"
  using assms AssertIsBoolean_Wire_nbVariables[OF assms(2)]
  by (auto simp: Xor_def AssertIsBoolean_Constant constantValue_def newInternalVariable_def
      MarkBoolean_def addPlonkConstraint_def zeroR1C_def)

lemma Or_one_Constant:
  assumes "c = 0 \<or> c = 1" and "AssertIsBoolean s (Wire t) = (Inr (), s1)"
  shows "Or s (Wire t) (Constant c) = (Inr (if c = 1 then Constant 1 else Wire t), s1)"
    and "Or s (Constant c) (Wire t) = (Inr (if c = 1 then Constant 1 else Wire t), s1)"
  using assms
  by (auto simp: Or_def AssertIsBoolean_Constant constantValue_def)

lemma And_one_Constant:
  assumes "c = 0 \<or> c = 1" and "AssertIsBoolean s (Wire t) = (Inr (), s1)"
  shows "\<exists>s'. And s (Wire t) (Constant c)
            = (Inr (if c = 0 \<or> Coeff t = 0 then Constant 0 else Wire t), s') \<and>
          constraints s' = constraints s1"
    and "\<exists>s'. And s (Constant c) (Wire t)
            = (Inr (if c = 0 \<or> Coeff t = 0 then Constant 0 else Wire t), s') \<and>
          constraints s' = constraints s1"
  using assms
  by (auto simp: And_def AssertIsBoolean_Constant Mul_def mulConstant_def MarkBoolean_def
      IsBoolean_def)

lemma ops_Constant_Constant:
  assumes "ca = 0 \<or> ca = 1" and "cb = 0 \<or> cb = 1"
  shows "Xor s (Constant ca) (Constant cb) = (Inr (Constant (of_bool ((ca = 1) \<noteq> (cb = 1)))), s)"
    and "Or s (Constant ca) (Constant cb) = (Inr (Constant (if ca = 1 \<or> cb = 1 then 1 else 0)), s)"
    and "And s (Constant ca) (Constant cb) = (Inr (Constant (ca * cb)), s)"
  using assms
  by (auto simp: Xor_def Or_def And_def AssertIsBoolean_Constant constantValue_def Mul_def
      MarkBoolean_def IsBoolean_def)

text \<open>
  C3, as the code has it. Let \<open>c\<close> be a boolean constant and \<open>t\<close> a term, and let \<open>s1\<close> be the
  builder after the boolean assertion of \<open>t\<close> (which emits one gate unless \<open>t\<close> is already
  marked boolean). Beyond \<open>s1\<close>, \<^verbatim>\<open>Xor\<close> of \<open>t\<close> and \<open>c\<close>, in either order, emits the single
  affine gate \<open>(1 - 2c)\<cdot>t + c - res = 0\<close>, whose \<open>qM\<close> is zero. \<^verbatim>\<open>Or\<close> and \<^verbatim>\<open>And\<close> emit
  no gate beyond \<open>s1\<close>: \<^verbatim>\<open>Or\<close> returns the constant 1 if \<open>c = 1\<close> and \<open>t\<close> itself
  otherwise; \<^verbatim>\<open>And\<close> returns the constant 0 if \<open>c = 0\<close> or the coefficient of \<open>t\<close> is zero,
  and \<open>t\<close> itself otherwise. With two boolean constants each of the three evaluates its truth
  table and leaves the builder as it was.
\<close>

theorem boolean_ops_constant_operands:
  fixes s :: "'a::field builder"
  assumes "c = 0 \<or> c = 1" and "ca = 0 \<or> ca = 1" and "cb = 0 \<or> cb = 1"
  shows "\<exists>s1 sx sx' sa sa'.
     AssertIsBoolean s (Wire t) = (Inr (), s1) \<and>
     Xor s (Wire t) (Constant c) = (Inr (Wire \<lparr>VID = nbVariables s, Coeff = 1\<rparr>), sx) \<and>
     Xor s (Constant c) (Wire t) = (Inr (Wire \<lparr>VID = nbVariables s, Coeff = 1\<rparr>), sx') \<and>
     constraints sx = constraints s1 @
        [\<lparr>xa = VID t, xb = 0, xc = nbVariables s, qL = (1 - c - c) * Coeff t,
          qR = 0, qO = - 1, qM = 0, qC = c, commitment = NOT\<rparr>] \<and>
     constraints sx' = constraints sx \<and>
     Or s (Wire t) (Constant c) = (Inr (if c = 1 then Constant 1 else Wire t), s1) \<and>
     Or s (Constant c) (Wire t) = (Inr (if c = 1 then Constant 1 else Wire t), s1) \<and>
     And s (Wire t) (Constant c)
       = (Inr (if c = 0 \<or> Coeff t = 0 then Constant 0 else Wire t), sa) \<and>
     And s (Constant c) (Wire t)
       = (Inr (if c = 0 \<or> Coeff t = 0 then Constant 0 else Wire t), sa') \<and>
     constraints sa = constraints s1 \<and> constraints sa' = constraints s1 \<and>
     Xor s (Constant ca) (Constant cb) = (Inr (Constant (of_bool ((ca = 1) \<noteq> (cb = 1)))), s) \<and>
     Or s (Constant ca) (Constant cb) = (Inr (Constant (if ca = 1 \<or> cb = 1 then 1 else 0)), s) \<and>
     And s (Constant ca) (Constant cb) = (Inr (Constant (ca * cb)), s)"
proof -
  obtain s1 where a: "AssertIsBoolean s (Wire t) = (Inr (), s1)"
    by (simp add: AssertIsBoolean_Wire)
  from Xor_Wire_Constant [OF assms(1) a] obtain sx where
    x1: "Xor s (Wire t) (Constant c) = (Inr (Wire \<lparr>VID = nbVariables s, Coeff = 1\<rparr>), sx)"
    and x2: "constraints sx = constraints s1 @
        [\<lparr>xa = VID t, xb = 0, xc = nbVariables s, qL = (1 - c - c) * Coeff t,
          qR = 0, qO = - 1, qM = 0, qC = c, commitment = NOT\<rparr>]" by blast
  from Xor_Constant_Wire [OF assms(1) a] obtain sx' where
    y1: "Xor s (Constant c) (Wire t) = (Inr (Wire \<lparr>VID = nbVariables s, Coeff = 1\<rparr>), sx')"
    and y2: "constraints sx' = constraints s1 @
        [\<lparr>xa = VID t, xb = 0, xc = nbVariables s, qL = (1 - c - c) * Coeff t,
          qR = 0, qO = - 1, qM = 0, qC = c, commitment = NOT\<rparr>]" by blast
  from And_one_Constant(1) [OF assms(1) a] obtain sa where
    a1: "And s (Wire t) (Constant c)
       = (Inr (if c = 0 \<or> Coeff t = 0 then Constant 0 else Wire t), sa)"
    and a2: "constraints sa = constraints s1" by blast
  from And_one_Constant(2) [OF assms(1) a] obtain sa' where
    b1: "And s (Constant c) (Wire t)
       = (Inr (if c = 0 \<or> Coeff t = 0 then Constant 0 else Wire t), sa')"
    and b2: "constraints sa' = constraints s1" by blast
  note o = Or_one_Constant [OF assms(1) a]
  note cc = ops_Constant_Constant [OF assms(2,3), of s]
  from y2 x2 have y3: "constraints sx' = constraints sx" by simp
  from a x1 y1 x2 y3 o a1 b1 a2 b2 cc show ?thesis by blast
qed

theorem boolean_ops_constant_operands_witness:
  "((1::F7) = 0 \<or> (1::F7) = 1) \<and> ((0::F7) = 0 \<or> (0::F7) = 1) \<and>
   (\<exists>sx. Xor \<lparr>constraints = [], nbVariables = 1, hints = [], mtBooleans = [],
               commitments = [], fieldBitLen = 3, fieldModulus = 7\<rparr>
             (Wire \<lparr>VID = 0, Coeff = 1 :: F7\<rparr>) (Constant 1)
           = (Inr (Wire \<lparr>VID = 1, Coeff = 1\<rparr>), sx) \<and>
         constraints sx =
           [\<lparr>xa = 0, xb = 0, xc = 0, qL = 1, qR = 0, qO = 0, qM = - 1, qC = 0,
             commitment = NOT\<rparr>,
            \<lparr>xa = 0, xb = 0, xc = 1, qL = - 1, qR = 0, qO = - 1, qM = 0, qC = 1,
             commitment = NOT\<rparr>]) \<and>
   Or \<lparr>constraints = [], nbVariables = 1, hints = [], mtBooleans = [],
       commitments = [], fieldBitLen = 3, fieldModulus = 7\<rparr>
      (Constant (1::F7)) (Constant 0)
     = (Inr (Constant 1),
        \<lparr>constraints = [], nbVariables = 1, hints = [], mtBooleans = [],
         commitments = [], fieldBitLen = 3, fieldModulus = 7\<rparr>)"
proof -
  let ?s = "\<lparr>constraints = [], nbVariables = 1, hints = [], mtBooleans = [],
            commitments = [], fieldBitLen = 3, fieldModulus = 7\<rparr> :: F7 builder"
  let ?t = "\<lparr>VID = 0, Coeff = 1 :: F7\<rparr>"
  have h1: "(1::F7) = 0 \<or> (1::F7) = 1" and h0: "(0::F7) = 0 \<or> (0::F7) = 1" by simp_all
  from boolean_ops_constant_operands [OF h1 h1 h0, of ?s ?t]
  obtain s1 sx where
        a: "AssertIsBoolean ?s (Wire ?t) = (Inr (), s1)"
    and x: "Xor ?s (Wire ?t) (Constant 1) = (Inr (Wire \<lparr>VID = nbVariables ?s, Coeff = 1\<rparr>), sx)"
    and e: "constraints sx = constraints s1 @
              [\<lparr>xa = VID ?t, xb = 0, xc = nbVariables ?s, qL = (1 - 1 - 1) * Coeff ?t,
                qR = 0, qO = - 1, qM = 0, qC = 1, commitment = NOT\<rparr>]"
    and o: "Or ?s (Constant 1) (Constant 0)
              = (Inr (Constant (if (1::F7) = 1 \<or> (0::F7) = 1 then 1 else 0)), ?s)"
    by blast
  from a have s1: "constraints s1 =
      [\<lparr>xa = 0, xb = 0, xc = 0, qL = 1, qR = 0, qO = 0, qM = - 1, qC = 0, commitment = NOT\<rparr>]"
    by (auto simp: AssertIsBoolean_Wire)
  from h1 h0 x o show ?thesis
    by (intro conjI exI [of _ sx]) (simp_all add: e s1)
qed

theorem Or_And_constant_operand_counterexample:
  "\<not> (\<exists>g. constraints
            (snd (Or \<lparr>constraints = [], nbVariables = 1, hints = [],
                      mtBooleans = [\<lparr>VID = 0, Coeff = 1 :: F7\<rparr>],
                      commitments = [], fieldBitLen = 3, fieldModulus = 7\<rparr>
                    (Wire \<lparr>VID = 0, Coeff = 1\<rparr>) (Constant 0))) = [g]) \<and>
   \<not> (\<exists>g. constraints
            (snd (And \<lparr>constraints = [], nbVariables = 1, hints = [],
                       mtBooleans = [\<lparr>VID = 0, Coeff = 1 :: F7\<rparr>],
                       commitments = [], fieldBitLen = 3, fieldModulus = 7\<rparr>
                    (Wire \<lparr>VID = 0, Coeff = 1\<rparr>) (Constant 1))) = [g])"
  by (simp add: Or_def And_def AssertIsBoolean_Wire AssertIsBoolean_Constant constantValue_def
      Mul_def mulConstant_def MarkBoolean_def)

section \<open>Commit\<close>

lemma filterConstants_Wires: "filterConstants v = map Wire [t. Wire t \<leftarrow> v]"
  by (induction v) (auto simp: filterConstants_def split: Variable.splits)

lemma comprehension_Wires: "[f t. Wire t \<leftarrow> v] = map f [t. Wire t \<leftarrow> v]"
  by (induction v) (auto split: Variable.splits)

lemma Commit_loop_Wires:
  "Commit_loop s (map Wire ts) acc =
     (Inr (acc @ [length (constraints s) ..< length (constraints s) + length ts]),
      s\<lparr>constraints := constraints s @
           map (\<lambda>t. \<lparr>xa = VID t, xb = 0, xc = 0, qL = - Coeff t, qR = 0, qO = 0, qM = 0,
                      qC = 0, commitment = COMMITTED\<rparr>) ts\<rparr>)"
proof (induction ts arbitrary: s acc)
  case Nil
  then show ?case by simp
next
  case (Cons t ts)
  show ?case
    by (simp add: Neg_def constantValue_def Cons.IH addPlonkConstraint_def zeroR1C_def
        upt_conv_Cons del: upt_Suc)
qed

lemma Commit_run:
  assumes "\<not> IsSmallField (fieldModulus s)"
  shows "Commit IsSmallField s v =
     (Inr (Wire \<lparr>VID = nbVariables s, Coeff = 1\<rparr>),
      s\<lparr>constraints := constraints s @
           map (\<lambda>t. \<lparr>xa = VID t, xb = 0, xc = 0, qL = - Coeff t, qR = 0, qO = 0, qM = 0,
                      qC = 0, commitment = COMMITTED\<rparr>) [t. Wire t \<leftarrow> v] @
           [\<lparr>xa = nbVariables s, xb = 0, xc = 0, qL = - 1, qR = 0, qO = 0, qM = 0,
             qC = 0, commitment = COMMITMENT\<rparr>],
        nbVariables := Suc (nbVariables s),
        hints := hints s @
           [\<lparr>hintId = Bsb22CommitmentComputePlaceholder,
             hintInputs = Constant (of_nat (length (commitments s))) # filterConstants v,
             hintOutputs = [nbVariables s]\<rparr>],
        commitments := commitments s @
           [\<lparr>CommitmentIndex = length (constraints s) + length (filterConstants v),
             Committed = [length (constraints s) ..<
                          length (constraints s) + length (filterConstants v)]\<rparr>]\<rparr>)"
  using assms
  by (simp add: Commit_def filterConstants_Wires Commit_loop_Wires NewHint_def Neg_def
      constantValue_def addPlonkConstraint_def AddCommitment_def zeroR1C_def upt_rec)

text \<open>
  C8. Over a field that is not a small field, \<^verbatim>\<open>Commit\<close> emits, for each committed value (the
  terms among its arguments: \<^verbatim>\<open>filterConstants\<close> drops the constants first), one gate tagged
  \<open>COMMITTED\<close> on the negated term, and records the index of that gate; it requests one hint
  whose first input is the commitment depth, the number of commitments so far, followed by the
  committed values; and it emits exactly one further gate, tagged \<open>COMMITMENT\<close>, on the negated
  hint output, whose index is recorded as the commitment's constraint index.
\<close>

theorem Commit_gates:
  fixes s :: "'a::field builder"
  assumes "\<not> IsSmallField (fieldModulus s)"
  shows "\<exists>s'. Commit IsSmallField s v = (Inr (Wire \<lparr>VID = nbVariables s, Coeff = 1\<rparr>), s') \<and>
     constraints s' = constraints s @
       [\<lparr>xa = VID t, xb = 0, xc = 0, qL = - Coeff t, qR = 0, qO = 0, qM = 0,
          qC = 0, commitment = COMMITTED\<rparr>. Wire t \<leftarrow> v] @
       [\<lparr>xa = nbVariables s, xb = 0, xc = 0, qL = - 1, qR = 0, qO = 0, qM = 0,
         qC = 0, commitment = COMMITMENT\<rparr>] \<and>
     hints s' = hints s @
       [\<lparr>hintId = Bsb22CommitmentComputePlaceholder,
         hintInputs = Constant (of_nat (length (commitments s))) # filterConstants v,
         hintOutputs = [nbVariables s]\<rparr>] \<and>
     commitments s' = commitments s @
       [\<lparr>CommitmentIndex = length (constraints s) + length (filterConstants v),
         Committed = [length (constraints s) ..<
                      length (constraints s) + length (filterConstants v)]\<rparr>] \<and>
     map (\<lambda>i. constraints s' ! i)
         [length (constraints s) ..< length (constraints s) + length (filterConstants v)]
       = [\<lparr>xa = VID t, xb = 0, xc = 0, qL = - Coeff t, qR = 0, qO = 0, qM = 0,
            qC = 0, commitment = COMMITTED\<rparr>. Wire t \<leftarrow> v] \<and>
     constraints s' ! (length (constraints s) + length (filterConstants v))
       = \<lparr>xa = nbVariables s, xb = 0, xc = 0, qL = - 1, qR = 0, qO = 0, qM = 0,
          qC = 0, commitment = COMMITMENT\<rparr> \<and>
     length (constraints s') = Suc (length (constraints s) + length (filterConstants v))"
proof -
  let ?ts = "[t. Wire t \<leftarrow> v]"
  let ?cg = "\<lambda>t. \<lparr>xa = VID t, xb = 0, xc = 0, qL = - Coeff t, qR = 0, qO = 0, qM = 0,
                      qC = 0, commitment = COMMITTED\<rparr> :: 'a sparseR1C"
  let ?fin = "\<lparr>xa = nbVariables s, xb = 0, xc = 0, qL = - 1, qR = 0, qO = 0, qM = 0,
         qC = 0, commitment = COMMITMENT\<rparr> :: 'a sparseR1C"
  let ?n = "length (constraints s)"
  obtain s' where run: "Commit IsSmallField s v = (Inr (Wire \<lparr>VID = nbVariables s, Coeff = 1\<rparr>), s')"
    and c: "constraints s' = constraints s @ map ?cg ?ts @ [?fin]"
    and h: "hints s' = hints s @
       [\<lparr>hintId = Bsb22CommitmentComputePlaceholder,
         hintInputs = Constant (of_nat (length (commitments s))) # filterConstants v,
         hintOutputs = [nbVariables s]\<rparr>]"
    and cm: "commitments s' = commitments s @
       [\<lparr>CommitmentIndex = ?n + length (filterConstants v),
         Committed = [?n ..< ?n + length (filterConstants v)]\<rparr>]"
    using Commit_run[of IsSmallField s v] assms by simp
  have len: "length (filterConstants v) = length ?ts"
    by (simp add: filterConstants_Wires del: length_concat)
  have em: "constraints s' = constraints s @ [?cg t. Wire t \<leftarrow> v] @ [?fin]"
    unfolding comprehension_Wires[of ?cg v] by (simp add: c)
  have ix: "map (\<lambda>i. constraints s' ! i) [?n ..< ?n + length (filterConstants v)]
       = [?cg t. Wire t \<leftarrow> v]"
    unfolding comprehension_Wires[of ?cg v] len
    by (rule nth_equalityI) (simp_all add: c nth_append del: length_concat)
  have fi: "constraints s' ! (?n + length (filterConstants v)) = ?fin"
    unfolding len by (simp add: c nth_append del: length_concat)
  have ln: "length (constraints s') = Suc (?n + length (filterConstants v))"
    unfolding len by (simp add: c del: length_concat)
  from run em h cm ix fi ln show ?thesis by blast
qed

theorem Commit_gates_witness:
  "\<not> (\<lambda>q. q = 2013265921)
        (fieldModulus \<lparr>constraints = [], nbVariables = 2, hints = [], mtBooleans = [],
                       commitments = [], fieldBitLen = 3, fieldModulus = 7\<rparr>) \<and>
   (\<exists>s'. Commit (\<lambda>q. q = 2013265921)
            \<lparr>constraints = [], nbVariables = 2, hints = [], mtBooleans = [],
             commitments = [], fieldBitLen = 3, fieldModulus = 7\<rparr>
            [Wire \<lparr>VID = 0, Coeff = 1 :: F7\<rparr>, Constant 5, Wire \<lparr>VID = 1, Coeff = 2\<rparr>]
          = (Inr (Wire \<lparr>VID = 2, Coeff = 1\<rparr>), s') \<and>
        constraints s' =
          [\<lparr>xa = 0, xb = 0, xc = 0, qL = - 1, qR = 0, qO = 0, qM = 0, qC = 0,
            commitment = COMMITTED\<rparr>,
           \<lparr>xa = 1, xb = 0, xc = 0, qL = - 2, qR = 0, qO = 0, qM = 0, qC = 0,
            commitment = COMMITTED\<rparr>,
           \<lparr>xa = 2, xb = 0, xc = 0, qL = - 1, qR = 0, qO = 0, qM = 0, qC = 0,
            commitment = COMMITMENT\<rparr>] \<and>
        commitments s' = [\<lparr>CommitmentIndex = 2, Committed = [0, 1]\<rparr>])"
proof -
  let ?s = "\<lparr>constraints = [], nbVariables = 2, hints = [], mtBooleans = [],
            commitments = [], fieldBitLen = 3, fieldModulus = 7\<rparr> :: F7 builder"
  let ?v = "[Wire \<lparr>VID = 0, Coeff = 1 :: F7\<rparr>, Constant 5, Wire \<lparr>VID = 1, Coeff = 2\<rparr>]"
  let ?small = "\<lambda>q::int. q = 2013265921"
  have h: "\<not> ?small (fieldModulus ?s)" by simp
  from Commit_gates [of ?small ?s ?v, OF h]
  obtain s' where
        r: "Commit ?small ?s ?v = (Inr (Wire \<lparr>VID = nbVariables ?s, Coeff = 1\<rparr>), s')"
    and e: "constraints s' = constraints ?s @
       [\<lparr>xa = VID t, xb = 0, xc = 0, qL = - Coeff t, qR = 0, qO = 0, qM = 0,
          qC = 0, commitment = COMMITTED\<rparr>. Wire t \<leftarrow> ?v] @
       [\<lparr>xa = nbVariables ?s, xb = 0, xc = 0, qL = - 1, qR = 0, qO = 0, qM = 0,
         qC = 0, commitment = COMMITMENT\<rparr>]"
    and cm: "commitments s' = commitments ?s @
       [\<lparr>CommitmentIndex = length (constraints ?s) + length (filterConstants ?v),
         Committed = [length (constraints ?s) ..<
                      length (constraints ?s) + length (filterConstants ?v)]\<rparr>]"
    by blast
  from h r show ?thesis
    by (intro conjI exI [of _ s']) (simp_all add: e cm filterConstants_def upt_rec)
qed

text \<open>
  C9, as the code has it. Over a field designated as a small field \<^verbatim>\<open>Commit\<close> fails before
  it does anything else: it hands an error value back to its caller (it does not panic), and the
  builder is as it was, so no gate has been emitted.
\<close>

theorem Commit_small_field:
  assumes "IsSmallField (fieldModulus s)"
  shows "Commit IsSmallField s v
           = (Inl (Error ''commitment not supported for small field''), s)"
  using assms by (simp add: Commit_def)

theorem Commit_small_field_witness:
  "(\<lambda>q. q = 7) (fieldModulus \<lparr>constraints = [], nbVariables = 1, hints = [], mtBooleans = [],
                     commitments = [], fieldBitLen = 3, fieldModulus = 7\<rparr>) \<and>
   Commit (\<lambda>q. q = 7)
      \<lparr>constraints = [], nbVariables = 1, hints = [], mtBooleans = [],
       commitments = [], fieldBitLen = 3, fieldModulus = 7\<rparr>
      [Wire \<lparr>VID = 0, Coeff = 1 :: F7\<rparr>]
    = (Inl (Error ''commitment not supported for small field''),
       \<lparr>constraints = [], nbVariables = 1, hints = [], mtBooleans = [],
        commitments = [], fieldBitLen = 3, fieldModulus = 7\<rparr>)"
  using Commit_small_field [of "\<lambda>q. q = 7"
      "\<lparr>constraints = [], nbVariables = 1, hints = [], mtBooleans = [],
        commitments = [], fieldBitLen = 3, fieldModulus = 7\<rparr>"
      "[Wire \<lparr>VID = 0, Coeff = 1 :: F7\<rparr>]"]
  by simp

theorem Commit_small_field_counterexample:
  "\<not> (\<exists>msg. fst (Commit (\<lambda>q. q = 7)
                    \<lparr>constraints = [], nbVariables = 1, hints = [], mtBooleans = [],
                     commitments = [], fieldBitLen = 3, fieldModulus = 7\<rparr>
                    [Wire \<lparr>VID = 0, Coeff = 1 :: F7\<rparr>]) = Inl (Panic msg))"
  by (simp add: Commit_def)

section \<open>Select\<close>

text \<open>
  Which gates the additions and the product add: a sum adds gates without a multiplication term
  only, a product of two operands adds at most one gate.
\<close>

lemma splitSum_gates:
  "splitSum s acc r k = (out, s') \<Longrightarrow>
     \<exists>gs. constraints s' = constraints s @ gs \<and> (\<forall>g \<in> set gs. qM g = 0)"
proof (induction s acc r k arbitrary: out s' rule: splitSum.induct)
  case (1 s acc)
  then show ?case by simp
next
  case (2 s acc k)
  then show ?case
    by (auto simp: newInternalVariable_def zeroR1C_def)
next
  case (3 s acc t r k)
  obtain out1 s1 where n: "newInternalVariable s = (out1, s1)" by (cases "newInternalVariable s")
  let ?g = "zeroR1C\<lparr>xa := VID acc, xb := VID t, xc := VID out1,
                      qL := Coeff acc, qR := Coeff t, qO := - 1\<rparr>"
  let ?s2 = "addPlonkConstraint s1 ?g"
  from 3(2) n have rec: "splitSum ?s2 out1 r k = (out, s')" by simp
  from "3.IH"[OF n[symmetric] refl refl rec]
  obtain gs where gs: "constraints s' = constraints ?s2 @ gs" "\<forall>g \<in> set gs. qM g = 0"
    by blast
  have c2: "constraints ?s2 = constraints s @ [?g]"
    using constraints_newInternalVariable[OF n] by simp
  have "constraints s' = constraints s @ (?g # gs)" using gs(1) c2 by simp
  moreover have "\<forall>g \<in> set (?g # gs). qM g = 0" using gs(2) by (simp add: zeroR1C_def)
  ultimately show ?case by blast
qed

lemma Add_gates:
  assumes "Add s i1 i2 ins = (Inr r, s')"
  shows "\<exists>gs. constraints s' = constraints s @ gs \<and> (\<forall>g \<in> set gs. qM g = 0)"
proof -
  obtain vars k where f: "filterConstantSum (i1 # i2 # ins) = (vars, k)"
    by (cases "filterConstantSum (i1 # i2 # ins)")
  show ?thesis
  proof (cases "vars = []")
    case True
    with assms f show ?thesis by (auto simp: Add_def simp del: filterConstantSum.simps)
  next
    case False
    then obtain v0 rest where red: "reduce vars = v0 # rest"
      using reduce_nonempty[of vars] by (cases "reduce vars") auto
    obtain out s1 where sp: "splitSum s v0 rest (if k = 0 then None else Some k) = (out, s1)"
      by (cases "splitSum s v0 rest (if k = 0 then None else Some k)")
    from assms f False red sp have "s' = s1"
      by (auto simp: Add_def simp del: filterConstantSum.simps split: if_splits)
    with splitSum_gates[OF sp] show ?thesis by simp
  qed
qed

lemma Sub_gates:
  assumes "Sub s i1 i2 [] = (Inr r, s')"
  shows "\<exists>gs. constraints s' = constraints s @ gs \<and> (\<forall>g \<in> set gs. qM g = 0)"
  using assms Add_gates[of s i1 "Neg i2" "[]" r s'] by (simp add: Sub_def neg_def)

lemma splitProd_gates:
  "splitProd s acc r = (out, s') \<Longrightarrow>
     \<exists>gs. constraints s' = constraints s @ gs \<and> length gs = length r"
proof (induction s acc r arbitrary: out s' rule: splitProd.induct)
  case (1 s acc)
  then show ?case by simp
next
  case (2 s acc t r)
  obtain out1 s1 where n: "newInternalVariable s = (out1, s1)" by (cases "newInternalVariable s")
  let ?g = "zeroR1C\<lparr>xa := VID acc, xb := VID t, xc := VID out1,
                      qM := Coeff acc * Coeff t, qO := - 1\<rparr>"
  let ?s2 = "addPlonkConstraint s1 ?g"
  from 2(2) n have rec: "splitProd ?s2 out1 r = (out, s')" by simp
  from "2.IH"[OF n[symmetric] refl refl rec]
  obtain gs where gs: "constraints s' = constraints ?s2 @ gs" "length gs = length r"
    by blast
  have c2: "constraints ?s2 = constraints s @ [?g]"
    using constraints_newInternalVariable[OF n] by simp
  have "constraints s' = constraints s @ (?g # gs)" using gs(1) c2 by simp
  moreover have "length (?g # gs) = length (t # r)" using gs(2) by simp
  ultimately show ?case by blast
qed

lemma filterConstantProd_length:
  "length (fst (filterConstantProd ops)) \<le> length ops"
  by (induction ops rule: filterConstantProd.induct) (auto split: prod.splits)

lemma Mul_gates:
  assumes "Mul s a b [] = (Inr r, s')"
  shows "\<exists>gs. constraints s' = constraints s @ gs \<and> length gs \<le> 1"
proof -
  obtain vars k where f: "filterConstantProd [a, b] = (vars, k)"
    by (cases "filterConstantProd [a, b]")
  have len: "length vars \<le> 2"
    using filterConstantProd_length[of "[a, b]"] f by simp
  show ?thesis
  proof (cases "vars = [] \<or> k = 0 \<or> list_ex (\<lambda>v. Coeff v = 0) vars")
    case True
    with assms f have "s' = s"
      by (auto simp: Mul_def simp del: filterConstantProd.simps split: if_splits)
    then show ?thesis by simp
  next
    case False
    then obtain v0 rest where vs: "vars = v0 # rest" by (cases vars) auto
    obtain out s1 where sp: "splitProd s (mulConstant v0 k) rest = (out, s1)"
      by (cases "splitProd s (mulConstant v0 k) rest")
    from assms f False vs sp have "s' = s1"
      by (auto simp: Mul_def simp del: filterConstantProd.simps)
    with splitProd_gates[OF sp] len vs show ?thesis by auto
  qed
qed

lemma Select_Constant:
  "Select s (Constant cb) i1 i2 =
     (if cb = 0 then (Inr i2, s)
      else if cb = 1 then (Inr i1, s)
      else (Inl (Panic ''should be 0 or 1''), s))"
  by (simp add: Select_def constantValue_def IsBoolean_def)

lemma Select_Wire_chain:
  "\<exists>s1 u s2 l s3 r s'.
     AssertIsBoolean s (Wire tb) = (Inr (), s1) \<and>
     Sub s1 i1 i2 [] = (Inr u, s2) \<and>
     Mul s2 u (Wire tb) [] = (Inr l, s3) \<and>
     Add s3 l i2 [] = (Inr r, s') \<and>
     Select s (Wire tb) i1 i2 = (Inr r, s')"
proof -
  obtain s1 where a1: "AssertIsBoolean s (Wire tb) = (Inr (), s1)"
    by (simp add: AssertIsBoolean_Wire)
  obtain u s2 where sb: "Sub s1 i1 i2 [] = (Inr u, s2)" using Sub_total by blast
  obtain l s3 where m: "Mul s2 u (Wire tb) [] = (Inr l, s3)" using Mul_total by blast
  obtain r s4 where ad: "Add s3 l i2 [] = (Inr r, s4)" using Add_total by blast
  from a1 sb m ad have "Select s (Wire tb) i1 i2 = (Inr r, s4)"
    by (simp add: Select_def constantValue_def)
  with a1 sb m ad show ?thesis by blast
qed

text \<open>
  C2, as the code has it. With a constant condition \<^verbatim>\<open>Select\<close> resolves statically and
  emits nothing: it returns \<open>i2\<close> if the constant is 0, \<open>i1\<close> if it is 1, and panics
  otherwise. With a condition that is a term \<open>b\<close> it asserts \<open>b\<close> boolean and then computes
  \<open>u = Sub(i1, i2)\<close>, \<open>l = Mul(u, b)\<close> and \<open>r = Add(l, i2)\<close>. Under every assignment that
  satisfies the gates, \<open>r = b\<cdot>(i1 - i2) + i2\<close>: it is \<open>i1\<close> when \<open>b = 1\<close> and \<open>i2\<close> when
  \<open>b = 0\<close>. Among the gates emitted after the boolean assertion at most one has a
  multiplication term (the gate of \<^verbatim>\<open>Mul\<close>, which is folded away when \<open>u\<close> is a constant or
  has the coefficient zero); the additions emit gates without one, or none.
\<close>

theorem Select_multiplexer:
  fixes s :: "'a::field builder"
  shows
   "Select s (Constant cb) i1 i2 =
      (if cb = 0 then (Inr i2, s)
       else if cb = 1 then (Inr i1, s)
       else (Inl (Panic ''should be 0 or 1''), s)) \<and>
    (\<exists>s1 u s2 l s3 r s'.
       AssertIsBoolean s (Wire tb) = (Inr (), s1) \<and>
       Sub s1 i1 i2 [] = (Inr u, s2) \<and>
       Mul s2 u (Wire tb) [] = (Inr l, s3) \<and>
       Add s3 l i2 [] = (Inr r, s') \<and>
       Select s (Wire tb) i1 i2 = (Inr r, s') \<and>
       prefix (constraints s1) (constraints s') \<and>
       length (filter (\<lambda>g. qM g \<noteq> 0) (emitted s1 s')) \<le> 1 \<and>
       (\<forall>w. satisfies w (constraints s') \<longrightarrow>
          eval w r = eval w (Wire tb) * (eval w i1 - eval w i2) + eval w i2) \<and>
       (\<forall>w. satisfies w (constraints s') \<and> eval w (Wire tb) = 1 \<longrightarrow> eval w r = eval w i1) \<and>
       (\<forall>w. satisfies w (constraints s') \<and> eval w (Wire tb) = 0 \<longrightarrow> eval w r = eval w i2))"
proof -
  from Select_Wire_chain [of s tb i1 i2]
  obtain s1 u s2 l s3 r s' where
        a1: "AssertIsBoolean s (Wire tb) = (Inr (), s1)"
    and sb: "Sub s1 i1 i2 [] = (Inr u, s2)"
    and m: "Mul s2 u (Wire tb) [] = (Inr l, s3)"
    and ad: "Add s3 l i2 [] = (Inr r, s')"
    and run: "Select s (Wire tb) i1 i2 = (Inr r, s')"
    by blast
  from Sub_gates [OF sb] obtain g1 where g1: "constraints s2 = constraints s1 @ g1"
    "\<forall>g \<in> set g1. qM g = 0" by blast
  from Mul_gates [OF m] obtain g2 where g2: "constraints s3 = constraints s2 @ g2"
    "length g2 \<le> 1" by blast
  from Add_gates [OF ad] obtain g3 where g3: "constraints s' = constraints s3 @ g3"
    "\<forall>g \<in> set g3. qM g = 0" by blast
  have c: "constraints s' = constraints s1 @ (g1 @ g2 @ g3)" using g1 g2 g3 by simp
  then have p: "prefix (constraints s1) (constraints s')" by simp
  have em: "emitted s1 s' = g1 @ g2 @ g3" using c by (simp add: emitted_def)
  have f1: "filter (\<lambda>g. qM g \<noteq> 0) g1 = []" using g1(2) by (simp add: filter_empty_conv)
  have f3: "filter (\<lambda>g. qM g \<noteq> 0) g3 = []" using g3(2) by (simp add: filter_empty_conv)
  have "length (filter (\<lambda>g. qM g \<noteq> 0) (emitted s1 s')) = length (filter (\<lambda>g. qM g \<noteq> 0) g2)"
    by (simp add: em f1 f3)
  also have "\<dots> \<le> length g2" by simp
  finally have cnt: "length (filter (\<lambda>g. qM g \<noteq> 0) (emitted s1 s')) \<le> 1" using g2(2) by simp
  from Select_sound [OF run]
  have v: "\<forall>w. satisfies w (constraints s') \<longrightarrow>
          eval w r = eval w (Wire tb) * (eval w i1 - eval w i2) + eval w i2" by blast
  then have v1: "\<forall>w. satisfies w (constraints s') \<and> eval w (Wire tb) = 1 \<longrightarrow> eval w r = eval w i1"
    and v0: "\<forall>w. satisfies w (constraints s') \<and> eval w (Wire tb) = 0 \<longrightarrow> eval w r = eval w i2"
    by simp_all
  from a1 sb m ad run p cnt v v1 v0 Select_Constant [of s cb i1 i2] show ?thesis
    by blast
qed

lemma Select_example:
  "Select \<lparr>constraints = [], nbVariables = 3, hints = [], mtBooleans = [],
           commitments = [], fieldBitLen = 3, fieldModulus = 7\<rparr>
     (Wire \<lparr>VID = 0, Coeff = 1 :: F7\<rparr>) (Wire \<lparr>VID = 1, Coeff = 1\<rparr>) (Wire \<lparr>VID = 2, Coeff = 1\<rparr>)
   = (Inr (Wire \<lparr>VID = 5, Coeff = 1\<rparr>),
      \<lparr>constraints =
         [\<lparr>xa = 0, xb = 0, xc = 0, qL = 1, qR = 0, qO = 0, qM = - 1, qC = 0, commitment = NOT\<rparr>,
          \<lparr>xa = 1, xb = 2, xc = 3, qL = 1, qR = - 1, qO = - 1, qM = 0, qC = 0, commitment = NOT\<rparr>,
          \<lparr>xa = 3, xb = 0, xc = 4, qL = 0, qR = 0, qO = - 1, qM = 1, qC = 0, commitment = NOT\<rparr>,
          \<lparr>xa = 4, xb = 2, xc = 5, qL = 1, qR = 1, qO = - 1, qM = 0, qC = 0, commitment = NOT\<rparr>],
       nbVariables = 6, hints = [], mtBooleans = [\<lparr>VID = 0, Coeff = 1\<rparr>],
       commitments = [], fieldBitLen = 3, fieldModulus = 7\<rparr>)"
  by (simp add: Select_def constantValue_def AssertIsBoolean_Wire Sub_def neg_def Neg_def
      Add_def reduce_def Mul_def mulConstant_def newInternalVariable_def addPlonkConstraint_def
      zeroR1C_def F7_simps)

theorem Select_multiplexer_witness:
  "\<exists>r s'.
     Select \<lparr>constraints = [], nbVariables = 3, hints = [], mtBooleans = [],
             commitments = [], fieldBitLen = 3, fieldModulus = 7\<rparr>
       (Wire \<lparr>VID = 0, Coeff = 1 :: F7\<rparr>) (Wire \<lparr>VID = 1, Coeff = 1\<rparr>) (Wire \<lparr>VID = 2, Coeff = 1\<rparr>)
      = (Inr r, s') \<and>
     satisfies (\<lambda>i. if i = 0 then 1 else if i = 1 then 5 else if i = 2 then 2
                     else if i = 3 then 3 else if i = 4 then 3 else 5) (constraints s') \<and>
     eval (\<lambda>i. if i = 0 then 1 else if i = 1 then 5 else if i = 2 then 2
                else if i = 3 then 3 else if i = 4 then 3 else 5) (Wire \<lparr>VID = 0, Coeff = 1 :: F7\<rparr>) = 1 \<and>
     eval (\<lambda>i. if i = 0 then 1 else if i = 1 then 5 else if i = 2 then 2
                else if i = 3 then 3 else if i = 4 then 3 else 5) r = 5"
proof -
  let ?s = "\<lparr>constraints = [], nbVariables = 3, hints = [], mtBooleans = [],
            commitments = [], fieldBitLen = 3, fieldModulus = 7\<rparr> :: F7 builder"
  let ?b = "\<lparr>VID = 0, Coeff = 1 :: F7\<rparr>"
  let ?x = "Wire \<lparr>VID = 1, Coeff = 1 :: F7\<rparr>"
  let ?y = "Wire \<lparr>VID = 2, Coeff = 1 :: F7\<rparr>"
  let ?w = "\<lambda>i::nat. if i = 0 then 1 else if i = 1 then 5 else if i = 2 then 2
                     else if i = 3 then 3 else if i = 4 then 3 else 5 :: F7"
  from Select_multiplexer [of ?s 0 ?x ?y ?b]
  obtain r s' where run: "Select ?s (Wire ?b) ?x ?y = (Inr r, s')"
    and v1: "\<forall>w. satisfies w (constraints s') \<and> eval w (Wire ?b) = 1 \<longrightarrow> eval w r = eval w ?x"
    by blast
  from run have c: "constraints s' =
         [\<lparr>xa = 0, xb = 0, xc = 0, qL = 1, qR = 0, qO = 0, qM = - 1, qC = 0, commitment = NOT\<rparr>,
          \<lparr>xa = 1, xb = 2, xc = 3, qL = 1, qR = - 1, qO = - 1, qM = 0, qC = 0, commitment = NOT\<rparr>,
          \<lparr>xa = 3, xb = 0, xc = 4, qL = 0, qR = 0, qO = - 1, qM = 1, qC = 0, commitment = NOT\<rparr>,
          \<lparr>xa = 4, xb = 2, xc = 5, qL = 1, qR = 1, qO = - 1, qM = 0, qC = 0, commitment = NOT\<rparr>]"
    unfolding Select_example by auto
  have sat: "satisfies ?w (constraints s')"
    by (simp add: c gateHolds_def F7_simps)
  have b1: "eval ?w (Wire ?b) = 1" by (simp add: termVal_def)
  from v1 [rule_format, OF conjI [OF sat b1]] have "eval ?w r = 5" by (simp add: termVal_def)
  with run sat b1 show ?thesis by blast
qed

theorem Select_constant_operands_counterexample:
  "\<not> (\<exists>g. filter (\<lambda>g. qM g \<noteq> 0)
              (constraints
                 (snd (Select \<lparr>constraints = [], nbVariables = 1, hints = [],
                               mtBooleans = [\<lparr>VID = 0, Coeff = 1 :: F7\<rparr>],
                               commitments = [], fieldBitLen = 3, fieldModulus = 7\<rparr>
                         (Wire \<lparr>VID = 0, Coeff = 1\<rparr>) (Constant 1) (Constant 0)))) = [g])"
  by (simp add: Select_def constantValue_def AssertIsBoolean_Wire Sub_def neg_def Neg_def
      Add_def reduce_def Mul_def mulConstant_def F7_simps)

section \<open>Cmp\<close>

text \<open>
  One iteration of the loop keeps a running result that is not zero, and otherwise sets it to
  1, -1 or 0 as the two bits compare; over the whole loop the running result, after the bits
  from the top down to \<open>i\<close>, is the comparison of the two numbers without their \<open>i\<close>
  lowest bits.
\<close>

lemma IsZero_total: "\<exists>r s'. IsZero s x = (Inr r, s')"
  by (cases x) (simp_all add: IsZero_Constant IsZero_Wire)

lemma IsZero_sound:
  assumes "IsZero s x = (Inr r, s')"
  shows "prefix (constraints s) (constraints s') \<and>
     (\<forall>w. satisfies w (constraints s') \<longrightarrow> eval w r = (if eval w x = 0 then 1 else 0)) \<and>
     (\<forall>c. r = Constant c \<longrightarrow> c = 0 \<or> c = 1)"
proof (cases x)
  case (Constant c)
  with assms show ?thesis by (auto simp: IsZero_Constant split: if_splits)
next
  case (Wire a)
  let ?n = "nbVariables s"
  let ?g1 = "\<lparr>xa = VID a, xb = Suc ?n, xc = ?n,
            qL = 0, qR = 0, qO = 1, qM = Coeff a, qC = - 1, commitment = NOT\<rparr>"
  let ?g2 = "\<lparr>xa = VID a, xb = ?n, xc = 0,
            qL = 0, qR = 0, qO = 0, qM = Coeff a, qC = 0, commitment = NOT\<rparr>"
  from assms Wire have r: "r = Wire \<lparr>VID = ?n, Coeff = 1\<rparr>"
    and c: "constraints s' = constraints s @ [?g1, ?g2]"
    by (auto simp: IsZero_Wire)
  have "eval w r = (if eval w x = 0 then 1 else 0)" if "satisfies w (constraints s')" for w
  proof -
    from that c have "gateHolds w ?g1" "gateHolds w ?g2" by simp_all
    from IsZero_gates_sound [OF this] show ?thesis by (simp add: r Wire termVal_def)
  qed
  with r c show ?thesis by simp
qed

lemma Cmp_bit_values:
  fixes p q rho :: "'a::field"
  assumes "p = 0 \<or> p = 1" and "q = 0 \<or> q = 1"
    and "z1 = (if p = 0 then 1 else 0)" and "z2 = (if q = 0 then 1 else 0)"
    and "i1i2 = p * z2" and "i2i1 = q * z1"
    and "n = i2i1 * (- 1 - 0) + 0" and "m = i1i2 * (1 - n) + n"
    and "z = (if rho = 0 then 1 else 0)" and "res1 = z * (m - rho) + rho"
  shows "res1 = (if rho \<noteq> 0 then rho
                 else if p = 1 \<and> q = 0 then 1
                 else if p = 0 \<and> q = 1 then - 1
                 else 0)"
  using assms by auto

lemma Cmp_loop_step:
  fixes s :: "'a::field builder"
  assumes "i < length bi1" and "i < length bi2"
    and "\<forall>c. bi1 ! i = Constant c \<longrightarrow> c = 0 \<or> c = 1"
    and "\<forall>c. bi2 ! i = Constant c \<longrightarrow> c = 0 \<or> c = 1"
  shows "\<exists>res1 s8.
     Cmp_loop s bi1 bi2 res (Suc i) = Cmp_loop s8 bi1 bi2 res1 i \<and>
     prefix (constraints s) (constraints s8) \<and>
     (\<forall>w. satisfies w (constraints s8) \<and>
          (eval w (bi1 ! i) = 0 \<or> eval w (bi1 ! i) = 1) \<and>
          (eval w (bi2 ! i) = 0 \<or> eval w (bi2 ! i) = 1) \<longrightarrow>
          eval w res1 =
            (if eval w res \<noteq> 0 then eval w res
             else if eval w (bi1 ! i) = 1 \<and> eval w (bi2 ! i) = 0 then 1
             else if eval w (bi1 ! i) = 0 \<and> eval w (bi2 ! i) = 1 then - 1
             else 0))"
proof -
  obtain z1 s1 where o1: "IsZero s (bi1 ! i) = (Inr z1, s1)" using IsZero_total by blast
  obtain z2 s2 where o2: "IsZero s1 (bi2 ! i) = (Inr z2, s2)" using IsZero_total by blast
  note f1 = IsZero_sound [OF o1]
  note f2 = IsZero_sound [OF o2]
  obtain i1i2 s3 where o3: "And s2 (bi1 ! i) z2 = (Inr i1i2, s3)"
    using And_total [OF assms(3), of z2 s2] f2 by blast
  obtain i2i1 s4 where o4: "And s3 (bi2 ! i) z1 = (Inr i2i1, s4)"
    using And_total [OF assms(4), of z1 s3] f1 by blast
  note f3 = And_sound [OF o3]
  note f4 = And_sound [OF o4]
  obtain n s5 where o5: "Select s4 i2i1 (Constant (- 1)) (Constant 0) = (Inr n, s5)"
    using Select_total [of i2i1 s4] f4 by blast
  obtain m s6 where o6: "Select s5 i1i2 (Constant 1) n = (Inr m, s6)"
    using Select_total [of i1i2 s5] f3 by blast
  obtain z s7 where o7: "IsZero s6 res = (Inr z, s7)" using IsZero_total by blast
  note f5 = Select_sound [OF o5]
  note f6 = Select_sound [OF o6]
  note f7 = IsZero_sound [OF o7]
  obtain res1 s8 where o8: "Select s7 z m res = (Inr res1, s8)"
    using Select_total [of z s7] f7 by blast
  note f8 = Select_sound [OF o8]
  have run: "Cmp_loop s bi1 bi2 res (Suc i) = Cmp_loop s8 bi1 bi2 res1 i"
    using assms(1,2) o1 o2 o3 o4 o5 o6 o7 o8 by simp
  have p78: "prefix (constraints s7) (constraints s8)" using f8 by blast
  have p68: "prefix (constraints s6) (constraints s8)" using f7 p78 by (metis prefix_order.trans)
  have p58: "prefix (constraints s5) (constraints s8)" using f6 p68 by (metis prefix_order.trans)
  have p48: "prefix (constraints s4) (constraints s8)" using f5 p58 by (metis prefix_order.trans)
  have p38: "prefix (constraints s3) (constraints s8)" using f4 p48 by (metis prefix_order.trans)
  have p28: "prefix (constraints s2) (constraints s8)" using f3 p38 by (metis prefix_order.trans)
  have p18: "prefix (constraints s1) (constraints s8)" using f2 p28 by (metis prefix_order.trans)
  have p08: "prefix (constraints s) (constraints s8)" using f1 p18 by (metis prefix_order.trans)
  have val: "eval w res1 =
            (if eval w res \<noteq> 0 then eval w res
             else if eval w (bi1 ! i) = 1 \<and> eval w (bi2 ! i) = 0 then 1
             else if eval w (bi1 ! i) = 0 \<and> eval w (bi2 ! i) = 1 then - 1
             else 0)"
    if sat: "satisfies w (constraints s8)"
      and b1: "eval w (bi1 ! i) = 0 \<or> eval w (bi1 ! i) = 1"
      and b2: "eval w (bi2 ! i) = 0 \<or> eval w (bi2 ! i) = 1" for w
  proof -
    have e1: "eval w z1 = (if eval w (bi1 ! i) = 0 then 1 else 0)"
      using f1 satisfies_prefix [OF p18 sat] by blast
    have e2: "eval w z2 = (if eval w (bi2 ! i) = 0 then 1 else 0)"
      using f2 satisfies_prefix [OF p28 sat] by blast
    have e3: "eval w i1i2 = eval w (bi1 ! i) * eval w z2"
      using f3 satisfies_prefix [OF p38 sat] by blast
    have e4: "eval w i2i1 = eval w (bi2 ! i) * eval w z1"
      using f4 satisfies_prefix [OF p48 sat] by blast
    have e5: "eval w n = eval w i2i1 * (- 1 - 0) + 0"
      using f5 satisfies_prefix [OF p58 sat] by simp
    have e6: "eval w m = eval w i1i2 * (1 - eval w n) + eval w n"
      using f6 satisfies_prefix [OF p68 sat] by simp
    have e7: "eval w z = (if eval w res = 0 then 1 else 0)"
      using f7 satisfies_prefix [OF p78 sat] by blast
    have e8: "eval w res1 = eval w z * (eval w m - eval w res) + eval w res"
      using f8 sat by blast
    from Cmp_bit_values [OF b1 b2 e1 e2 e3 e4 e5 e6 e7 e8] show ?thesis .
  qed
  from run p08 val show ?thesis by blast
qed

lemma cmp_refine_nat:
  fixes A B :: nat
  shows "(if (if A div 2 < B div 2 then - 1 else if A div 2 = B div 2 then 0 else 1) \<noteq> (0::'a::field)
          then (if A div 2 < B div 2 then - 1 else if A div 2 = B div 2 then 0 else 1)
          else if of_bool (odd A) = (1::'a) \<and> of_bool (odd B) = (0::'a) then 1
          else if of_bool (odd A) = (0::'a) \<and> of_bool (odd B) = (1::'a) then - 1
          else 0)
       = (if A < B then - 1 else if A = B then 0 else (1::'a))"
proof -
  consider (lt) "A div 2 < B div 2" | (eq) "A div 2 = B div 2" | (gt) "B div 2 < A div 2"
    by linarith
  then show ?thesis
  proof cases
    case lt
    then have "A < B" by linarith
    with lt show ?thesis by simp
  next
    case gt
    then have "B < A" by linarith
    with gt show ?thesis by simp
  next
    case eq
    have l: "A < B \<longleftrightarrow> \<not> odd A \<and> odd B" using eq by presburger
    have e: "A = B \<longleftrightarrow> (odd A \<longleftrightarrow> odd B)" using eq by presburger
    show ?thesis
      by (cases "odd A"; cases "odd B") (simp_all add: eq l e)
  qed
qed

lemma cmp_refine:
  fixes X Y :: nat and rho p q :: "'a::field"
  assumes "rho = (if drop_bit (Suc i) X < drop_bit (Suc i) Y then - 1
                  else if drop_bit (Suc i) X = drop_bit (Suc i) Y then 0 else 1)"
    and "p = of_bool (bit X i)" and "q = of_bool (bit Y i)"
  shows "(if rho \<noteq> 0 then rho
          else if p = 1 \<and> q = 0 then 1
          else if p = 0 \<and> q = 1 then - 1
          else 0)
       = (if drop_bit i X < drop_bit i Y then - 1
          else if drop_bit i X = drop_bit i Y then 0 else 1)"
proof -
  let ?A = "drop_bit i X" and ?B = "drop_bit i Y"
  have d: "drop_bit (Suc i) X = ?A div 2" "drop_bit (Suc i) Y = ?B div 2"
    by (simp_all add: drop_bit_Suc drop_bit_half)
  have b: "bit X i = odd ?A" "bit Y i = odd ?B"
    by (simp_all add: bit_iff_odd_drop_bit)
  show ?thesis
    unfolding assms d b by (rule cmp_refine_nat)
qed

lemma Cmp_loop_correct:
  fixes s :: "'a::field builder"
  assumes "i \<le> length bi1" and "i \<le> length bi2"
    and "\<forall>j<i. \<forall>c. bi1 ! j = Constant c \<longrightarrow> c = 0 \<or> c = 1"
    and "\<forall>j<i. \<forall>c. bi2 ! j = Constant c \<longrightarrow> c = 0 \<or> c = 1"
  shows "\<exists>r s'.
     Cmp_loop s bi1 bi2 res i = (Inr r, s') \<and>
     prefix (constraints s) (constraints s') \<and>
     (\<forall>w X Y. satisfies w (constraints s') \<and>
        (\<forall>j<i. eval w (bi1 ! j) = of_bool (bit X j)) \<and>
        (\<forall>j<i. eval w (bi2 ! j) = of_bool (bit Y j)) \<and>
        eval w res = (if drop_bit i X < drop_bit i Y then - 1
                      else if drop_bit i X = drop_bit i Y then 0 else 1) \<longrightarrow>
        eval w r = (if (X::nat) < Y then - 1 else if X = Y then 0 else 1))"
  using assms
proof (induction i arbitrary: s res)
  case 0
  show ?case by simp
next
  case (Suc i)
  have b1: "\<forall>c. bi1 ! i = Constant c \<longrightarrow> c = 0 \<or> c = 1"
    and b2: "\<forall>c. bi2 ! i = Constant c \<longrightarrow> c = 0 \<or> c = 1"
    using Suc.prems(3,4) by blast+
  have l1: "i < length bi1" and l2: "i < length bi2" using Suc.prems(1,2) by simp_all
  from Cmp_loop_step [OF l1 l2 b1 b2, of s res]
  obtain res1 s8 where
        run: "Cmp_loop s bi1 bi2 res (Suc i) = Cmp_loop s8 bi1 bi2 res1 i"
    and p8: "prefix (constraints s) (constraints s8)"
    and st: "\<forall>w. satisfies w (constraints s8) \<and>
          (eval w (bi1 ! i) = 0 \<or> eval w (bi1 ! i) = 1) \<and>
          (eval w (bi2 ! i) = 0 \<or> eval w (bi2 ! i) = 1) \<longrightarrow>
          eval w res1 =
            (if eval w res \<noteq> 0 then eval w res
             else if eval w (bi1 ! i) = 1 \<and> eval w (bi2 ! i) = 0 then 1
             else if eval w (bi1 ! i) = 0 \<and> eval w (bi2 ! i) = 1 then - 1
             else 0)"
    by blast
  have q1: "i \<le> length bi1" and q2: "i \<le> length bi2" using Suc.prems(1,2) by simp_all
  have q3: "\<forall>j<i. \<forall>c. bi1 ! j = Constant c \<longrightarrow> c = 0 \<or> c = 1"
    and q4: "\<forall>j<i. \<forall>c. bi2 ! j = Constant c \<longrightarrow> c = 0 \<or> c = 1"
    using Suc.prems(3,4) by (simp_all add: less_Suc_eq)
  from Suc.IH [OF q1 q2 q3 q4, of s8 res1]
  obtain r s' where
        fin: "Cmp_loop s8 bi1 bi2 res1 i = (Inr r, s')"
    and p: "prefix (constraints s8) (constraints s')"
    and ih: "\<forall>w X Y. satisfies w (constraints s') \<and>
        (\<forall>j<i. eval w (bi1 ! j) = of_bool (bit X j)) \<and>
        (\<forall>j<i. eval w (bi2 ! j) = of_bool (bit Y j)) \<and>
        eval w res1 = (if drop_bit i X < drop_bit i Y then - 1
                      else if drop_bit i X = drop_bit i Y then 0 else 1) \<longrightarrow>
        eval w r = (if (X::nat) < Y then - 1 else if X = Y then 0 else 1)"
    by blast
  have "eval w r = (if X < Y then - 1 else if X = Y then 0 else 1)"
    if sat: "satisfies w (constraints s')"
      and x: "\<forall>j<Suc i. eval w (bi1 ! j) = of_bool (bit X j)"
      and y: "\<forall>j<Suc i. eval w (bi2 ! j) = of_bool (bit Y j)"
      and rho: "eval w res = (if drop_bit (Suc i) X < drop_bit (Suc i) Y then - 1
                      else if drop_bit (Suc i) X = drop_bit (Suc i) Y then 0 else 1)"
    for w and X Y :: nat
  proof -
    have xi: "eval w (bi1 ! i) = of_bool (bit X i)" and yi: "eval w (bi2 ! i) = of_bool (bit Y i)"
      using x y by simp_all
    have sat8: "satisfies w (constraints s8)" using satisfies_prefix [OF p sat] .
    have "eval w res1 =
            (if eval w res \<noteq> 0 then eval w res
             else if eval w (bi1 ! i) = 1 \<and> eval w (bi2 ! i) = 0 then 1
             else if eval w (bi1 ! i) = 0 \<and> eval w (bi2 ! i) = 1 then - 1
             else 0)"
      using st sat8 xi yi by simp
    also have "\<dots> = (if drop_bit i X < drop_bit i Y then - 1
                      else if drop_bit i X = drop_bit i Y then 0 else 1)"
      by (rule cmp_refine [OF rho xi yi])
    finally have "eval w res1 = (if drop_bit i X < drop_bit i Y then - 1
                      else if drop_bit i X = drop_bit i Y then 0 else 1)" .
    with ih sat x y show ?thesis by simp
  qed
  moreover have "prefix (constraints s) (constraints s')"
    using p8 p by (metis prefix_order.trans)
  ultimately show ?case using run fin by simp
qed

lemma cmp_value_cases:
  fixes v :: "'a::field" and X Y :: nat
  assumes "v = (if X < Y then - 1 else if X = Y then 0 else 1)" and "(1::'a) \<noteq> - 1"
  shows "(v = - 1 \<longleftrightarrow> X < Y) \<and> (v = 0 \<longleftrightarrow> X = Y) \<and> (v = 1 \<longleftrightarrow> Y < X)"
proof -
  have "(- 1::'a) \<noteq> 1" using assms(2) by (metis)
  with assms show ?thesis by auto
qed

subsection \<open>Extending a satisfying assignment\<close>

text \<open>
  The gates of an operation are satisfiable: in a well-formed builder, whose operands mention
  allocated wires only, every assignment that satisfies the gates before the call (and gives
  the operands that the operation asserts boolean a boolean value) extends, on the wires the
  call allocates, to an assignment that satisfies the gates after it.
\<close>

lemma agree_iff: "agree n w w1 \<longleftrightarrow> (\<forall>i<n. w1 i = w i)"
  by (auto simp: agree_def list_all_iff)

lemma agree_refl [simp]: "agree n w w"
  by (simp add: agree_iff)

lemma agree_trans: "agree n w w1 \<Longrightarrow> agree m w1 w2 \<Longrightarrow> n \<le> m \<Longrightarrow> agree n w w2"
  by (simp add: agree_iff)

lemma agree_update: "n \<le> k \<Longrightarrow> agree n w (w(k := v))"
  by (simp add: agree_iff)

lemma agree_termVal: "agree n w w1 \<Longrightarrow> VID t < n \<Longrightarrow> termVal w1 t = termVal w t"
  by (simp add: agree_iff termVal_def)

lemma agree_eval: "agree n w w1 \<Longrightarrow> varInRange n v \<Longrightarrow> eval w1 v = eval w v"
  by (cases v) (simp_all add: varInRange_def agree_termVal)

lemma agree_gateHolds: "agree n w w1 \<Longrightarrow> gateInRange n g \<Longrightarrow> gateHolds w1 g \<longleftrightarrow> gateHolds w g"
  by (simp add: agree_iff gateInRange_def gateHolds_def)

lemma agree_satisfies:
  "agree n w w1 \<Longrightarrow> list_all (gateInRange n) gs \<Longrightarrow> satisfies w1 gs \<longleftrightarrow> satisfies w gs"
  by (induction gs) (simp_all add: agree_gateHolds)

lemma gateInRange_mono: "gateInRange n g \<Longrightarrow> n \<le> m \<Longrightarrow> gateInRange m g"
  by (simp add: gateInRange_def)

lemma varInRange_mono: "varInRange n v \<Longrightarrow> n \<le> m \<Longrightarrow> varInRange m v"
  by (cases v) (simp_all add: varInRange_def)

lemma varInRange_Constant [simp]: "varInRange n (Constant c)"
  by (simp add: varInRange_def)

lemma varInRange_Wire [simp]: "varInRange n (Wire t) \<longleftrightarrow> VID t < n"
  by (simp add: varInRange_def)

lemma wellFormed_satisfies:
  "wellFormed s \<Longrightarrow> agree (nbVariables s) w w1 \<Longrightarrow> satisfies w (constraints s)
     \<Longrightarrow> satisfies w1 (constraints s)"
  by (simp add: wellFormed_def agree_satisfies)

lemma wellFormed_frame:
  "constraints s1 = constraints s \<Longrightarrow> nbVariables s1 = nbVariables s
     \<Longrightarrow> wellFormed s1 \<longleftrightarrow> wellFormed s"
  by (simp add: wellFormed_def)

text \<open>Emitting one gate that defines a fresh wire.\<close>

lemma emit_fresh_wf:
  assumes "wellFormed s" and "newInternalVariable s = (out, s1)"
    and "gateInRange (Suc (nbVariables s)) g"
  shows "wellFormed (addPlonkConstraint s1 g)"
    and "nbVariables (addPlonkConstraint s1 g) = Suc (nbVariables s)"
    and "VID out = nbVariables s"
proof -
  from assms(2) have s1: "s1 = s\<lparr>nbVariables := Suc (nbVariables s)\<rparr>"
    and o: "out = \<lparr>VID = nbVariables s, Coeff = 1\<rparr>"
    by (auto simp: newInternalVariable_def)
  have "list_all (gateInRange (nbVariables s)) (constraints s)"
    using assms(1) by (simp add: wellFormed_def)
  then have "list_all (gateInRange (Suc (nbVariables s))) (constraints s)"
    by (auto simp: list_all_iff intro: gateInRange_mono)
  then show "wellFormed (addPlonkConstraint s1 g)"
    using assms(3) by (simp add: wellFormed_def s1 addPlonkConstraint_def)
  show "nbVariables (addPlonkConstraint s1 g) = Suc (nbVariables s)"
    by (simp add: s1 addPlonkConstraint_def)
  show "VID out = nbVariables s" by (simp add: o)
qed

lemma emit_fresh_sat:
  assumes "wellFormed s" and "satisfies w (constraints s)"
    and "newInternalVariable s = (out, s1)"
    and "gateHolds (w(nbVariables s := v)) g"
  shows "agree (nbVariables s) w (w(nbVariables s := v)) \<and>
         satisfies (w(nbVariables s := v)) (constraints (addPlonkConstraint s1 g))"
proof -
  from assms(3) have s1: "s1 = s\<lparr>nbVariables := Suc (nbVariables s)\<rparr>"
    by (auto simp: newInternalVariable_def)
  have old: "list_all (gateInRange (nbVariables s)) (constraints s)"
    using assms(1) by (simp add: wellFormed_def)
  have ag: "agree (nbVariables s) w (w(nbVariables s := v))"
    by (rule agree_update) simp
  have "satisfies (w(nbVariables s := v)) (constraints s)"
    using agree_satisfies [OF ag old] assms(2) by simp
  with assms(4) ag show ?thesis
    by (simp add: s1 addPlonkConstraint_def)
qed

lemma splitSum_complete_aux:
  "splitSum s acc r k = (out, s') \<Longrightarrow> wellFormed s \<Longrightarrow> VID acc < nbVariables s \<Longrightarrow>
   \<forall>t \<in> set r. VID t < nbVariables s \<Longrightarrow>
     wellFormed s' \<and> nbVariables s \<le> nbVariables s' \<and> VID out < nbVariables s' \<and>
     (\<forall>w. satisfies w (constraints s) \<longrightarrow>
        (\<exists>w1. agree (nbVariables s) w w1 \<and> satisfies w1 (constraints s')))"
proof (induction s acc r k arbitrary: out s' rule: splitSum.induct)
  case (1 s acc)
  then have "s' = s" "out = acc" by simp_all
  with 1 show ?case using agree_refl by blast
next
  case (2 s acc k)
  obtain out1 s1 where n: "newInternalVariable s = (out1, s1)" by (cases "newInternalVariable s")
  let ?n = "nbVariables s"
  let ?g = "zeroR1C\<lparr>xa := VID acc, xc := VID out1, qL := Coeff acc, qO := - 1, qC := k\<rparr>"
  from 2(1) n have o: "out = out1" and s': "s' = addPlonkConstraint s1 ?g" by auto
  have vo: "VID out1 = ?n" using n by (auto simp: newInternalVariable_def)
  have rg: "gateInRange (Suc ?n) ?g"
    using 2(3) vo by (simp add: gateInRange_def zeroR1C_def)
  note wf = emit_fresh_wf [OF 2(2) n rg]
  have "\<exists>w1. agree ?n w w1 \<and> satisfies w1 (constraints s')" if sat: "satisfies w (constraints s)" for w
  proof -
    have gh: "gateHolds (w(?n := termVal w acc + k)) ?g"
      using 2(3) vo by (simp add: gateHolds_def zeroR1C_def termVal_def)
    from emit_fresh_sat [OF 2(2) sat n gh] show ?thesis unfolding s' by blast
  qed
  with wf o vo show ?case unfolding s' by simp
next
  case (3 s acc t r k)
  obtain out1 s1 where n: "newInternalVariable s = (out1, s1)" by (cases "newInternalVariable s")
  let ?n = "nbVariables s"
  let ?g = "zeroR1C\<lparr>xa := VID acc, xb := VID t, xc := VID out1,
                      qL := Coeff acc, qR := Coeff t, qO := - 1\<rparr>"
  let ?s2 = "addPlonkConstraint s1 ?g"
  from 3(2) n have rec: "splitSum ?s2 out1 r k = (out, s')" by simp
  have vo: "VID out1 = ?n" using n by (auto simp: newInternalVariable_def)
  have vt: "VID t < ?n" using 3(5) by simp
  have rg: "gateInRange (Suc ?n) ?g"
    using 3(4) vt vo by (simp add: gateInRange_def zeroR1C_def)
  note wf = emit_fresh_wf [OF 3(3) n rg]
  have r2: "\<forall>t \<in> set r. VID t < nbVariables ?s2" using 3(5) wf(2) by auto
  have o2: "VID out1 < nbVariables ?s2" using vo wf(2) by simp
  from "3.IH" [OF n [symmetric] refl refl rec wf(1) o2 r2]
  have wf': "wellFormed s'" and le: "nbVariables ?s2 \<le> nbVariables s'"
    and vo': "VID out < nbVariables s'"
    and ex: "\<forall>w. satisfies w (constraints ?s2) \<longrightarrow>
        (\<exists>w1. agree (nbVariables ?s2) w w1 \<and> satisfies w1 (constraints s'))"
    by blast+
  have "\<exists>w1. agree ?n w w1 \<and> satisfies w1 (constraints s')" if sat: "satisfies w (constraints s)" for w
  proof -
    have gh: "gateHolds (w(?n := termVal w acc + termVal w t)) ?g"
      using 3(4) vt vo by (simp add: gateHolds_def zeroR1C_def termVal_def)
    from emit_fresh_sat [OF 3(3) sat n gh]
    obtain w2 where a2: "agree ?n w w2" and s2: "satisfies w2 (constraints ?s2)" by blast
    from ex s2 obtain w1 where a1: "agree (nbVariables ?s2) w2 w1"
      and s1: "satisfies w1 (constraints s')" by blast
    have "agree ?n w w1" using agree_trans [OF a2 a1] wf(2) by simp
    with s1 show ?thesis by blast
  qed
  with wf' le vo' wf(2) show ?case by simp
qed

lemma splitProd_complete_aux:
  "splitProd s acc r = (out, s') \<Longrightarrow> wellFormed s \<Longrightarrow> VID acc < nbVariables s \<Longrightarrow>
   \<forall>t \<in> set r. VID t < nbVariables s \<Longrightarrow>
     wellFormed s' \<and> nbVariables s \<le> nbVariables s' \<and> VID out < nbVariables s' \<and>
     (\<forall>w. satisfies w (constraints s) \<longrightarrow>
        (\<exists>w1. agree (nbVariables s) w w1 \<and> satisfies w1 (constraints s')))"
proof (induction s acc r arbitrary: out s' rule: splitProd.induct)
  case (1 s acc)
  then have "s' = s" "out = acc" by simp_all
  with 1 show ?case using agree_refl by blast
next
  case (2 s acc t r)
  obtain out1 s1 where n: "newInternalVariable s = (out1, s1)" by (cases "newInternalVariable s")
  let ?n = "nbVariables s"
  let ?g = "zeroR1C\<lparr>xa := VID acc, xb := VID t, xc := VID out1,
                      qM := Coeff acc * Coeff t, qO := - 1\<rparr>"
  let ?s2 = "addPlonkConstraint s1 ?g"
  from 2(2) n have rec: "splitProd ?s2 out1 r = (out, s')" by simp
  have vo: "VID out1 = ?n" using n by (auto simp: newInternalVariable_def)
  have vt: "VID t < ?n" using 2(5) by simp
  have rg: "gateInRange (Suc ?n) ?g"
    using 2(4) vt vo by (simp add: gateInRange_def zeroR1C_def)
  note wf = emit_fresh_wf [OF 2(3) n rg]
  have r2: "\<forall>t \<in> set r. VID t < nbVariables ?s2" using 2(5) wf(2) by auto
  have o2: "VID out1 < nbVariables ?s2" using vo wf(2) by simp
  from "2.IH" [OF n [symmetric] refl refl rec wf(1) o2 r2]
  have wf': "wellFormed s'" and le: "nbVariables ?s2 \<le> nbVariables s'"
    and vo': "VID out < nbVariables s'"
    and ex: "\<forall>w. satisfies w (constraints ?s2) \<longrightarrow>
        (\<exists>w1. agree (nbVariables ?s2) w w1 \<and> satisfies w1 (constraints s'))"
    by blast+
  have "\<exists>w1. agree ?n w w1 \<and> satisfies w1 (constraints s')" if sat: "satisfies w (constraints s)" for w
  proof -
    have gh: "gateHolds (w(?n := termVal w acc * termVal w t)) ?g"
      using 2(4) vt vo by (simp add: gateHolds_def zeroR1C_def termVal_def)
    from emit_fresh_sat [OF 2(3) sat n gh]
    obtain w2 where a2: "agree ?n w w2" and s2: "satisfies w2 (constraints ?s2)" by blast
    from ex s2 obtain w1 where a1: "agree (nbVariables ?s2) w2 w1"
      and s1: "satisfies w1 (constraints s')" by blast
    have "agree ?n w w1" using agree_trans [OF a2 a1] wf(2) by simp
    with s1 show ?thesis by blast
  qed
  with wf' le vo' wf(2) show ?case by simp
qed

lemma filterConstantSum_range:
  "\<forall>v \<in> set ops. varInRange n v \<Longrightarrow> \<forall>t \<in> set (fst (filterConstantSum ops)). VID t < n"
  by (induction ops rule: filterConstantSum.induct) (auto split: prod.splits)

lemma filterConstantProd_range:
  "\<forall>v \<in> set ops. varInRange n v \<Longrightarrow> \<forall>t \<in> set (fst (filterConstantProd ops)). VID t < n"
  by (induction ops rule: filterConstantProd.induct) (auto split: prod.splits)

lemma mergeTerm_range:
  "VID t < n \<Longrightarrow> \<forall>u \<in> set acc. VID u < n \<Longrightarrow> \<forall>u \<in> set (mergeTerm t acc). VID u < n"
  by (induction acc) auto

lemma foldl_mergeTerm_range:
  "\<forall>u \<in> set a. VID u < n \<Longrightarrow> \<forall>t \<in> set l. VID t < n \<Longrightarrow>
     \<forall>u \<in> set (foldl (\<lambda>acc t. mergeTerm t acc) a l). VID u < n"
proof (induction l arbitrary: a)
  case Nil
  then show ?case by simp
next
  case (Cons t l)
  have "\<forall>u \<in> set (mergeTerm t a). VID u < n"
    using mergeTerm_range [of t n a] Cons.prems by simp
  with Cons show ?case by simp
qed

lemma reduce_range: "\<forall>t \<in> set l. VID t < n \<Longrightarrow> \<forall>u \<in> set (reduce l). VID u < n"
  using foldl_mergeTerm_range [of "[]" n l] by (simp add: reduce_def)

lemma ext_refl: "satisfies w cs \<Longrightarrow> \<exists>w1. agree n w w1 \<and> satisfies w1 cs"
  by (rule exI [of _ w]) simp

lemma Add_complete:
  assumes "Add s i1 i2 ins = (Inr r, s')" and "wellFormed s"
    and "\<forall>v \<in> set (i1 # i2 # ins). varInRange (nbVariables s) v"
  shows "wellFormed s' \<and> nbVariables s \<le> nbVariables s' \<and> varInRange (nbVariables s') r \<and>
     (\<forall>w. satisfies w (constraints s) \<longrightarrow>
        (\<exists>w1. agree (nbVariables s) w w1 \<and> satisfies w1 (constraints s')))"
proof -
  obtain vars k where f: "filterConstantSum (i1 # i2 # ins) = (vars, k)"
    by (cases "filterConstantSum (i1 # i2 # ins)")
  show ?thesis
  proof (cases "vars = []")
    case True
    with assms(1) f have "r = Constant k" "s' = s"
      by (auto simp: Add_def simp del: filterConstantSum.simps)
    with assms(2) show ?thesis using ext_refl by auto
  next
    case False
    then obtain v0 rest where red: "reduce vars = v0 # rest"
      using reduce_nonempty[of vars] by (cases "reduce vars") auto
    obtain out s1 where sp: "splitSum s v0 rest (if k = 0 then None else Some k) = (out, s1)"
      by (cases "splitSum s v0 rest (if k = 0 then None else Some k)")
    from assms(1) f False red sp have r: "r = Wire out" "s' = s1"
      by (auto simp: Add_def simp del: filterConstantSum.simps split: if_splits)
    have "\<forall>t \<in> set vars. VID t < nbVariables s"
      using filterConstantSum_range [OF assms(3)] f by simp
    then have "\<forall>t \<in> set (v0 # rest). VID t < nbVariables s"
      using reduce_range [of vars "nbVariables s"] red by simp
    then have v0: "VID v0 < nbVariables s" and rs: "\<forall>t \<in> set rest. VID t < nbVariables s"
      by simp_all
    from splitSum_complete_aux [OF sp assms(2) v0 rs] r show ?thesis by simp
  qed
qed

lemma varInRange_Neg [simp]: "varInRange n (Neg v) \<longleftrightarrow> varInRange n v"
  by (cases v) (simp_all add: Neg_def constantValue_def)

lemma Sub_complete:
  assumes "Sub s i1 i2 [] = (Inr r, s')" and "wellFormed s"
    and "varInRange (nbVariables s) i1" and "varInRange (nbVariables s) i2"
  shows "wellFormed s' \<and> nbVariables s \<le> nbVariables s' \<and> varInRange (nbVariables s') r \<and>
     (\<forall>w. satisfies w (constraints s) \<longrightarrow>
        (\<exists>w1. agree (nbVariables s) w w1 \<and> satisfies w1 (constraints s')))"
  using assms Add_complete [of s i1 "Neg i2" "[]" r s'] by (simp add: Sub_def neg_def)

lemma Mul_complete:
  assumes "Mul s i1 i2 ins = (Inr r, s')" and "wellFormed s"
    and "\<forall>v \<in> set (i1 # i2 # ins). varInRange (nbVariables s) v"
  shows "wellFormed s' \<and> nbVariables s \<le> nbVariables s' \<and> varInRange (nbVariables s') r \<and>
     (\<forall>w. satisfies w (constraints s) \<longrightarrow>
        (\<exists>w1. agree (nbVariables s) w w1 \<and> satisfies w1 (constraints s')))"
proof -
  obtain vars k where f: "filterConstantProd (i1 # i2 # ins) = (vars, k)"
    by (cases "filterConstantProd (i1 # i2 # ins)")
  show ?thesis
  proof (cases "vars = [] \<or> k = 0 \<or> list_ex (\<lambda>v. Coeff v = 0) vars")
    case True
    with assms(1) f have "s' = s" "\<exists>c. r = Constant c"
      by (auto simp: Mul_def simp del: filterConstantProd.simps split: if_splits)
    with assms(2) show ?thesis using ext_refl by auto
  next
    case False
    then obtain v0 rest where vs: "vars = v0 # rest" by (cases vars) auto
    obtain out s1 where sp: "splitProd s (mulConstant v0 k) rest = (out, s1)"
      by (cases "splitProd s (mulConstant v0 k) rest")
    from assms(1) f False vs sp have r: "r = Wire out" "s' = s1"
      by (auto simp: Mul_def simp del: filterConstantProd.simps)
    have "\<forall>t \<in> set vars. VID t < nbVariables s"
      using filterConstantProd_range [OF assms(3)] f by simp
    then have v0: "VID (mulConstant v0 k) < nbVariables s"
      and rs: "\<forall>t \<in> set rest. VID t < nbVariables s"
      using vs by (simp_all add: mulConstant_def)
    from splitProd_complete_aux [OF sp assms(2) v0 rs] r show ?thesis by simp
  qed
qed

lemma MarkBoolean_frame:
  "MarkBoolean s v = (Inr u, s') \<Longrightarrow> constraints s' = constraints s \<and> nbVariables s' = nbVariables s"
  by (cases v) (auto simp: MarkBoolean_def split: if_splits)

lemma AssertIsBoolean_complete:
  assumes "AssertIsBoolean s v = (Inr u, s')" and "wellFormed s"
    and "varInRange (nbVariables s) v"
  shows "wellFormed s' \<and> nbVariables s' = nbVariables s \<and>
     (\<forall>w. satisfies w (constraints s) \<and> (eval w v = 0 \<or> eval w v = 1) \<longrightarrow>
        satisfies w (constraints s'))"
proof (cases v)
  case (Constant c)
  with assms show ?thesis by (auto simp: AssertIsBoolean_def split: if_splits)
next
  case (Wire t)
  let ?g = "\<lparr>xa = VID t, xb = VID t, xc = 0, qL = Coeff t, qR = 0, qO = 0,
             qM = - (Coeff t * Coeff t), qC = 0, commitment = NOT\<rparr>"
  from assms(3) Wire have vt: "VID t < nbVariables s" by simp
  have gh: "gateHolds w ?g" if "termVal w t = 0 \<or> termVal w t = 1" for w
    using that by (auto simp: gateHolds_def termVal_def algebra_simps)
  have rg: "gateInRange (nbVariables s) ?g" using vt by (simp add: gateInRange_def)
  from assms(1) Wire consider (a) "s' = s"
    | (b) "constraints s' = constraints s @ [?g]" "nbVariables s' = nbVariables s"
    by (auto simp: AssertIsBoolean_Wire split: if_splits)
  then show ?thesis
  proof cases
    case a
    with assms(2) show ?thesis by simp
  next
    case b
    have "wellFormed s'" using assms(2) rg b by (simp add: wellFormed_def)
    with b gh Wire show ?thesis by simp
  qed
qed

lemma MarkBoolean_wellFormed:
  "MarkBoolean s v = (Inr u, s') \<Longrightarrow> wellFormed s \<Longrightarrow> wellFormed s' \<and> nbVariables s' = nbVariables s"
  using MarkBoolean_frame [of s v u s'] wellFormed_frame [of s' s] by simp

lemma And_complete:
  assumes "And s a b = (Inr r, s')" and "wellFormed s"
    and "varInRange (nbVariables s) a" and "varInRange (nbVariables s) b"
  shows "wellFormed s' \<and> nbVariables s \<le> nbVariables s' \<and> varInRange (nbVariables s') r \<and>
     (\<forall>w. satisfies w (constraints s) \<and> (eval w a = 0 \<or> eval w a = 1) \<and>
            (eval w b = 0 \<or> eval w b = 1) \<longrightarrow>
        (\<exists>w1. agree (nbVariables s) w w1 \<and> satisfies w1 (constraints s')))"
proof -
  from assms(1) obtain u1 s1 where a1: "AssertIsBoolean s a = (Inr u1, s1)"
    and r1: "bnd (AssertIsBoolean s1 b) (\<lambda>_ s2.
       bnd (Mul s2 a b []) (\<lambda>res s3. bnd (MarkBoolean s3 res) (\<lambda>_ s4. (Inr res, s4)))) = (Inr r, s')"
    unfolding And_def by (blast dest: bnd_Inr)
  from r1 obtain u2 s2 where a2: "AssertIsBoolean s1 b = (Inr u2, s2)"
    and r2: "bnd (Mul s2 a b []) (\<lambda>res s3. bnd (MarkBoolean s3 res) (\<lambda>_ s4. (Inr res, s4))) = (Inr r, s')"
    by (blast dest: bnd_Inr)
  from r2 obtain res s3 where m: "Mul s2 a b [] = (Inr res, s3)"
    and r3: "bnd (MarkBoolean s3 res) (\<lambda>_ s4. (Inr res, s4)) = (Inr r, s')"
    by (blast dest: bnd_Inr)
  from r3 obtain u4 where mb: "MarkBoolean s3 res = (Inr u4, s')" and rr: "r = res"
    by (auto dest!: bnd_Inr)
  note c1 = AssertIsBoolean_complete [OF a1 assms(2) assms(3)]
  from c1 have wf1: "wellFormed s1" and n1: "nbVariables s1 = nbVariables s" by simp_all
  have b1: "varInRange (nbVariables s1) b" using assms(4) n1 by simp
  note c2 = AssertIsBoolean_complete [OF a2 wf1 b1]
  from c2 have wf2: "wellFormed s2" and n2: "nbVariables s2 = nbVariables s" using n1 by simp_all
  have ab: "\<forall>v \<in> set (a # b # []). varInRange (nbVariables s2) v"
    using assms(3,4) n2 by simp
  note c3 = Mul_complete [OF m wf2 ab]
  from c3 have wf3: "wellFormed s3" and n3: "nbVariables s \<le> nbVariables s3"
    and r3: "varInRange (nbVariables s3) res" using n2 by simp_all
  note c4 = MarkBoolean_wellFormed [OF mb wf3]
  note f4 = MarkBoolean_frame [OF mb]
  have "\<exists>w1. agree (nbVariables s) w w1 \<and> satisfies w1 (constraints s')"
    if sat: "satisfies w (constraints s)" and ba: "eval w a = 0 \<or> eval w a = 1"
      and bb: "eval w b = 0 \<or> eval w b = 1" for w
  proof -
    have "satisfies w (constraints s1)" using c1 sat ba by blast
    then have "satisfies w (constraints s2)" using c2 bb by blast
    then obtain w1 where "agree (nbVariables s2) w w1" "satisfies w1 (constraints s3)"
      using c3 by blast
    then show ?thesis using n2 f4 by auto
  qed
  then show ?thesis using c4 n3 r3 rr by simp
qed

lemma Select_complete:
  assumes "Select s b i1 i2 = (Inr r, s')" and "wellFormed s"
    and "varInRange (nbVariables s) b" and "varInRange (nbVariables s) i1"
    and "varInRange (nbVariables s) i2"
  shows "wellFormed s' \<and> nbVariables s \<le> nbVariables s' \<and> varInRange (nbVariables s') r \<and>
     (\<forall>w. satisfies w (constraints s) \<and> (eval w b = 0 \<or> eval w b = 1) \<longrightarrow>
        (\<exists>w1. agree (nbVariables s) w w1 \<and> satisfies w1 (constraints s')))"
proof (cases b)
  case (Constant cb)
  with assms(1) have "s' = s" "r = i1 \<or> r = i2"
    by (auto simp: Select_def constantValue_def IsBoolean_def split: if_splits)
  with assms show ?thesis using ext_refl by auto
next
  case (Wire t)
  with assms(1) have r0: "bnd (AssertIsBoolean s b) (\<lambda>_ s1.
          bnd (Sub s1 i1 i2 []) (\<lambda>u s2. bnd (Mul s2 u b []) (\<lambda>l s3. Add s3 l i2 []))) = (Inr r, s')"
    by (simp add: Select_def constantValue_def)
  then obtain u1 s1 where a1: "AssertIsBoolean s b = (Inr u1, s1)"
    and r1: "bnd (Sub s1 i1 i2 []) (\<lambda>u s2. bnd (Mul s2 u b []) (\<lambda>l s3. Add s3 l i2 [])) = (Inr r, s')"
    by (blast dest: bnd_Inr)
  from r1 obtain u s2 where sb: "Sub s1 i1 i2 [] = (Inr u, s2)"
    and r2: "bnd (Mul s2 u b []) (\<lambda>l s3. Add s3 l i2 []) = (Inr r, s')"
    by (blast dest: bnd_Inr)
  from r2 obtain l s3 where m: "Mul s2 u b [] = (Inr l, s3)"
    and ad: "Add s3 l i2 [] = (Inr r, s')"
    by (blast dest: bnd_Inr)
  note c1 = AssertIsBoolean_complete [OF a1 assms(2) assms(3)]
  from c1 have wf1: "wellFormed s1" and n1: "nbVariables s1 = nbVariables s" by simp_all
  have i1r: "varInRange (nbVariables s1) i1" and i2r: "varInRange (nbVariables s1) i2"
    using assms(4,5) n1 by simp_all
  note c2 = Sub_complete [OF sb wf1 i1r i2r]
  from c2 have wf2: "wellFormed s2" and n2: "nbVariables s1 \<le> nbVariables s2"
    and ur: "varInRange (nbVariables s2) u" by simp_all
  have br2: "varInRange (nbVariables s2) b"
    using varInRange_mono [OF assms(3)] n1 n2 by simp
  have ub: "\<forall>v \<in> set (u # b # []). varInRange (nbVariables s2) v" using ur br2 by simp
  note c3 = Mul_complete [OF m wf2 ub]
  from c3 have wf3: "wellFormed s3" and n3: "nbVariables s2 \<le> nbVariables s3"
    and lr: "varInRange (nbVariables s3) l" by simp_all
  have i2r3: "varInRange (nbVariables s3) i2"
    using varInRange_mono [OF assms(5)] n1 n2 n3 by simp
  have li: "\<forall>v \<in> set (l # i2 # []). varInRange (nbVariables s3) v" using lr i2r3 by simp
  note c4 = Add_complete [OF ad wf3 li]
  from c4 have wf4: "wellFormed s'" and n4: "nbVariables s3 \<le> nbVariables s'"
    and rr: "varInRange (nbVariables s') r" by simp_all
  have "\<exists>w1. agree (nbVariables s) w w1 \<and> satisfies w1 (constraints s')"
    if sat: "satisfies w (constraints s)" and bb: "eval w b = 0 \<or> eval w b = 1" for w
  proof -
    have "satisfies w (constraints s1)" using c1 sat bb by blast
    then obtain w1 where g1: "agree (nbVariables s1) w w1" and t1: "satisfies w1 (constraints s2)"
      using c2 by blast
    from t1 obtain w2 where g2: "agree (nbVariables s2) w1 w2" and t2: "satisfies w2 (constraints s3)"
      using c3 by blast
    from t2 obtain w3 where g3: "agree (nbVariables s3) w2 w3" and t3: "satisfies w3 (constraints s')"
      using c4 by blast
    have "agree (nbVariables s1) w w2" using agree_trans [OF g1 g2 n2] .
    then have "agree (nbVariables s1) w w3" using agree_trans [OF _ g3] n2 n3 by simp
    with t3 n1 show ?thesis by auto
  qed
  with wf4 rr n1 n2 n3 n4 show ?thesis by simp
qed

lemma IsZero_complete:
  assumes "IsZero s x = (Inr r, s')" and "wellFormed s" and "varInRange (nbVariables s) x"
  shows "wellFormed s' \<and> nbVariables s \<le> nbVariables s' \<and> varInRange (nbVariables s') r \<and>
     (\<forall>w. satisfies w (constraints s) \<longrightarrow>
        (\<exists>w1. agree (nbVariables s) w w1 \<and> satisfies w1 (constraints s')))"
proof (cases x)
  case (Constant c)
  with assms(1) have "s' = s" "\<exists>c. r = Constant c" by (auto simp: IsZero_Constant)
  with assms(2) show ?thesis using ext_refl by auto
next
  case (Wire a)
  let ?n = "nbVariables s"
  let ?g1 = "\<lparr>xa = VID a, xb = Suc ?n, xc = ?n,
            qL = 0, qR = 0, qO = 1, qM = Coeff a, qC = - 1, commitment = NOT\<rparr>"
  let ?g2 = "\<lparr>xa = VID a, xb = ?n, xc = 0,
            qL = 0, qR = 0, qO = 0, qM = Coeff a, qC = 0, commitment = NOT\<rparr>"
  from assms(1) Wire have r: "r = Wire \<lparr>VID = ?n, Coeff = 1\<rparr>"
    and cs: "constraints s' = constraints s @ [?g1, ?g2]"
    and nv: "nbVariables s' = Suc (Suc ?n)"
    by (auto simp: IsZero_Wire)
  from assms(3) Wire have va: "VID a < ?n" by simp
  have wf: "wellFormed s'"
    using assms(2) va cs nv
    by (auto simp: wellFormed_def gateInRange_def list_all_iff)
  have "\<exists>w1. agree ?n w w1 \<and> satisfies w1 (constraints s')"
    if sat: "satisfies w (constraints s)" for w
  proof -
    let ?v = "termVal w a"
    let ?w1 = "w(?n := (if ?v = 0 then 1 else 0), Suc ?n := inverse ?v)"
    have ag: "agree ?n w ?w1" by (simp add: agree_iff)
    have s0: "satisfies ?w1 (constraints s)"
      using wellFormed_satisfies [OF assms(2) ag sat] .
    have tv: "Coeff a * w (VID a) = ?v" by (simp add: termVal_def mult.commute)
    have "?v * inverse ?v + (if ?v = 0 then 1 else 0) - 1 = 0" by simp
    then have "Coeff a * w (VID a) * inverse ?v + (if ?v = 0 then 1 else 0) - 1 = 0"
      unfolding tv .
    then have h1: "gateHolds ?w1 ?g1" using va by (simp add: gateHolds_def)
    have h2: "gateHolds ?w1 ?g2" using va
      by (auto simp: gateHolds_def termVal_def)
    from ag s0 h1 h2 cs show ?thesis by (intro exI [of _ ?w1]) simp
  qed
  with wf r nv show ?thesis by simp
qed

lemma repr_find:
  assumes "\<exists>n<p. of_nat n = (x::'a::field)"
  shows "repr p x < p \<and> of_nat (repr p x) = x"
proof (cases "find (\<lambda>n. of_nat n = x) [0..<p]")
  case None
  with assms show ?thesis by (auto simp: find_None_iff)
next
  case (Some n)
  then have "n < p \<and> of_nat n = x"
    by (auto simp: find_Some_iff)
  with Some show ?thesis by (simp add: repr_def)
qed

lemma repr_least: "of_nat n = (x::'a::field) \<Longrightarrow> n < p \<Longrightarrow> repr p x \<le> n"
proof (cases "find (\<lambda>n. of_nat n = x) [0..<p]")
  case None
  then show ?thesis by (simp add: repr_def)
next
  case (Some m)
  assume a: "of_nat n = x" "n < p"
  from Some obtain i where i: "i < p" "[0..<p] ! i = m" "\<forall>j<i. of_nat ([0..<p] ! j) \<noteq> x"
    by (auto simp: find_Some_iff)
  have "m \<le> n"
  proof (rule ccontr)
    assume "\<not> m \<le> n"
    then have "n < i" using i by simp
    with i(3) a show False by auto
  qed
  with Some show ?thesis by (simp add: repr_def)
qed

lemma Cmp_iteration_complete:
  fixes s :: "'a::field builder"
  assumes o1: "IsZero s b1 = (Inr z1, s1)"
    and o2: "IsZero s1 b2 = (Inr z2, s2)"
    and o3: "And s2 b1 z2 = (Inr i1i2, s3)"
    and o4: "And s3 b2 z1 = (Inr i2i1, s4)"
    and o5: "Select s4 i2i1 (Constant (- 1)) (Constant 0) = (Inr n, s5)"
    and o6: "Select s5 i1i2 (Constant 1) n = (Inr m, s6)"
    and o7: "IsZero s6 res = (Inr z, s7)"
    and o8: "Select s7 z m res = (Inr res1, s8)"
    and wf: "wellFormed s"
    and rb1: "varInRange (nbVariables s) b1"
    and rb2: "varInRange (nbVariables s) b2"
    and rres: "varInRange (nbVariables s) res"
  shows "wellFormed s8 \<and> nbVariables s \<le> nbVariables s8 \<and> varInRange (nbVariables s8) res1 \<and>
     (\<forall>w. satisfies w (constraints s) \<and> (eval w b1 = 0 \<or> eval w b1 = 1) \<and>
            (eval w b2 = 0 \<or> eval w b2 = 1) \<longrightarrow>
        (\<exists>w8. agree (nbVariables s) w w8 \<and> satisfies w8 (constraints s8)))"
proof -
  note f1 = IsZero_sound [OF o1]
  note f2 = IsZero_sound [OF o2]
  note f3 = And_sound [OF o3]
  note f4 = And_sound [OF o4]
  note f7 = IsZero_sound [OF o7]
  have p12: "prefix (constraints s1) (constraints s2)" using f2 by blast
  have p23: "prefix (constraints s2) (constraints s3)" using f3 by blast
  have p34: "prefix (constraints s3) (constraints s4)" using f4 by blast
  have p45: "prefix (constraints s4) (constraints s5)" using Select_sound [OF o5] by blast
  note c1 = IsZero_complete [OF o1 wf rb1]
  from c1 have wf1: "wellFormed s1" and n1: "nbVariables s \<le> nbVariables s1"
    and rz1: "varInRange (nbVariables s1) z1" by simp_all
  note c2 = IsZero_complete [OF o2 wf1 varInRange_mono [OF rb2 n1]]
  from c2 have wf2: "wellFormed s2" and n12: "nbVariables s1 \<le> nbVariables s2"
    and rz2: "varInRange (nbVariables s2) z2" by simp_all
  have n2: "nbVariables s \<le> nbVariables s2" using n1 n12 by simp
  note c3 = And_complete [OF o3 wf2 varInRange_mono [OF rb1 n2] rz2]
  from c3 have wf3: "wellFormed s3" and n23: "nbVariables s2 \<le> nbVariables s3"
    and ri12: "varInRange (nbVariables s3) i1i2" by simp_all
  have n3: "nbVariables s \<le> nbVariables s3" using n2 n23 by simp
  have n13: "nbVariables s1 \<le> nbVariables s3" using n12 n23 by simp
  note c4 = And_complete [OF o4 wf3 varInRange_mono [OF rb2 n3] varInRange_mono [OF rz1 n13]]
  from c4 have wf4: "wellFormed s4" and n34: "nbVariables s3 \<le> nbVariables s4"
    and ri21: "varInRange (nbVariables s4) i2i1" by simp_all
  have n4: "nbVariables s \<le> nbVariables s4" using n3 n34 by simp
  note c5 = Select_complete [OF o5 wf4 ri21 varInRange_Constant varInRange_Constant]
  from c5 have wf5: "wellFormed s5" and n45: "nbVariables s4 \<le> nbVariables s5"
    and rn: "varInRange (nbVariables s5) n" by simp_all
  have n5: "nbVariables s \<le> nbVariables s5" using n4 n45 by simp
  have n35: "nbVariables s3 \<le> nbVariables s5" using n34 n45 by simp
  note c6 = Select_complete [OF o6 wf5 varInRange_mono [OF ri12 n35] varInRange_Constant rn]
  from c6 have wf6: "wellFormed s6" and n56: "nbVariables s5 \<le> nbVariables s6"
    and rm: "varInRange (nbVariables s6) m" by simp_all
  have n6: "nbVariables s \<le> nbVariables s6" using n5 n56 by simp
  note c7 = IsZero_complete [OF o7 wf6 varInRange_mono [OF rres n6]]
  from c7 have wf7: "wellFormed s7" and n67: "nbVariables s6 \<le> nbVariables s7"
    and rz: "varInRange (nbVariables s7) z" by simp_all
  have n7: "nbVariables s \<le> nbVariables s7" using n6 n67 by simp
  note c8 = Select_complete [OF o8 wf7 rz varInRange_mono [OF rm n67] varInRange_mono [OF rres n7]]
  from c8 have wf8: "wellFormed s8" and n78: "nbVariables s7 \<le> nbVariables s8"
    and rr: "varInRange (nbVariables s8) res1" by simp_all
  have n8: "nbVariables s \<le> nbVariables s8" using n7 n78 by simp
  have "\<exists>w8. agree (nbVariables s) w w8 \<and> satisfies w8 (constraints s8)"
    if sat: "satisfies w (constraints s)"
      and v1: "eval w b1 = 0 \<or> eval w b1 = 1"
      and v2: "eval w b2 = 0 \<or> eval w b2 = 1" for w
  proof -
    have keep1: "eval w' b1 = 0 \<or> eval w' b1 = 1" if "agree (nbVariables s) w w'" for w'
      using agree_eval [OF that rb1] v1 by simp
    have keep2: "eval w' b2 = 0 \<or> eval w' b2 = 1" if "agree (nbVariables s) w w'" for w'
      using agree_eval [OF that rb2] v2 by simp
    have bz1: "eval w' z1 = 0 \<or> eval w' z1 = 1" if "satisfies w' (constraints s1)" for w'
      using f1 that by auto
    have bz2: "eval w' z2 = 0 \<or> eval w' z2 = 1" if "satisfies w' (constraints s2)" for w'
      using f2 that by auto
    from c1 sat obtain w1 where g1: "agree (nbVariables s) w w1"
      and t1: "satisfies w1 (constraints s1)" by blast
    from c2 t1 obtain w2 where h2: "agree (nbVariables s1) w1 w2"
      and t2: "satisfies w2 (constraints s2)" by blast
    have g2: "agree (nbVariables s) w w2" using agree_trans [OF g1 h2 n1] .
    from c3 t2 keep1 [OF g2] bz2 [OF t2] obtain w3 where h3: "agree (nbVariables s2) w2 w3"
      and t3: "satisfies w3 (constraints s3)" by blast
    have g3: "agree (nbVariables s) w w3" using agree_trans [OF g2 h3 n2] .
    have t31: "satisfies w3 (constraints s1)"
      using satisfies_prefix [OF p12 satisfies_prefix [OF p23 t3]] .
    from c4 t3 keep2 [OF g3] bz1 [OF t31] obtain w4 where h4: "agree (nbVariables s3) w3 w4"
      and t4: "satisfies w4 (constraints s4)" by blast
    have g4: "agree (nbVariables s) w w4" using agree_trans [OF g3 h4 n3] .
    have t43: "satisfies w4 (constraints s3)" using satisfies_prefix [OF p34 t4] .
    have t42: "satisfies w4 (constraints s2)" using satisfies_prefix [OF p23 t43] .
    have t41: "satisfies w4 (constraints s1)" using satisfies_prefix [OF p12 t42] .
    have e4: "eval w4 i2i1 = eval w4 b2 * eval w4 z1" using f4 t4 by blast
    have b4: "eval w4 i2i1 = 0 \<or> eval w4 i2i1 = 1"
      using keep2 [OF g4] bz1 [OF t41] unfolding e4 by auto
    from c5 t4 b4 obtain w5 where h5: "agree (nbVariables s4) w4 w5"
      and t5: "satisfies w5 (constraints s5)" by blast
    have g5: "agree (nbVariables s) w w5" using agree_trans [OF g4 h5 n4] .
    have t54: "satisfies w5 (constraints s4)" using satisfies_prefix [OF p45 t5] .
    have t53: "satisfies w5 (constraints s3)" using satisfies_prefix [OF p34 t54] .
    have t52: "satisfies w5 (constraints s2)" using satisfies_prefix [OF p23 t53] .
    have e5: "eval w5 i1i2 = eval w5 b1 * eval w5 z2" using f3 t53 by blast
    have b5: "eval w5 i1i2 = 0 \<or> eval w5 i1i2 = 1"
      using keep1 [OF g5] bz2 [OF t52] unfolding e5 by auto
    from c6 t5 b5 obtain w6 where h6: "agree (nbVariables s5) w5 w6"
      and t6: "satisfies w6 (constraints s6)" by blast
    have g6: "agree (nbVariables s) w w6" using agree_trans [OF g5 h6 n5] .
    from c7 t6 obtain w7 where h7: "agree (nbVariables s6) w6 w7"
      and t7: "satisfies w7 (constraints s7)" by blast
    have g7: "agree (nbVariables s) w w7" using agree_trans [OF g6 h7 n6] .
    have b7: "eval w7 z = 0 \<or> eval w7 z = 1" using f7 t7 by auto
    from c8 t7 b7 obtain w8 where h8: "agree (nbVariables s7) w7 w8"
      and t8: "satisfies w8 (constraints s8)" by blast
    have g8: "agree (nbVariables s) w w8" using agree_trans [OF g7 h8 n7] .
    from g8 t8 show ?thesis by blast
  qed
  with wf8 n8 rr show ?thesis by blast
qed

lemma Cmp_loop_Suc_run:
  assumes "Cmp_loop s bi1 bi2 res (Suc i) = (Inr r, s')"
  shows "\<exists>z1 s1 z2 s2 i1i2 s3 i2i1 s4 n s5 m s6 z s7 res1 s8.
     IsZero s (bi1 ! i) = (Inr z1, s1) \<and>
     IsZero s1 (bi2 ! i) = (Inr z2, s2) \<and>
     And s2 (bi1 ! i) z2 = (Inr i1i2, s3) \<and>
     And s3 (bi2 ! i) z1 = (Inr i2i1, s4) \<and>
     Select s4 i2i1 (Constant (- 1)) (Constant 0) = (Inr n, s5) \<and>
     Select s5 i1i2 (Constant 1) n = (Inr m, s6) \<and>
     IsZero s6 res = (Inr z, s7) \<and>
     Select s7 z m res = (Inr res1, s8) \<and>
     Cmp_loop s8 bi1 bi2 res1 i = (Inr r, s')"
proof -
  from assms have l1: "\<not> length bi1 \<le> i" by (auto split: if_splits)
  with assms obtain z1 s1 where o1: "IsZero s (bi1 ! i) = (Inr z1, s1)"
    and r1: "(if length bi2 \<le> i then (Inl (Panic ''index out of range''), s1)
          else
            bnd (IsZero s1 (bi2 ! i)) (\<lambda>iszeroi2 s2.
            bnd (And s2 (bi1 ! i) iszeroi2) (\<lambda>i1i2 s3.
            bnd (And s3 (bi2 ! i) z1) (\<lambda>i2i1 s4.
            bnd (Select s4 i2i1 (Constant (- 1)) (Constant 0)) (\<lambda>n s5.
            bnd (Select s5 i1i2 (Constant 1) n) (\<lambda>m s6.
            bnd (IsZero s6 res) (\<lambda>z s7.
            bnd (Select s7 z m res) (\<lambda>res1 s8.
            Cmp_loop s8 bi1 bi2 res1 i)))))))) = (Inr r, s')"
    by (auto dest!: bnd_Inr)
  from r1 have l2: "\<not> length bi2 \<le> i" by (auto split: if_splits)
  with r1 obtain z2 s2 where o2: "IsZero s1 (bi2 ! i) = (Inr z2, s2)"
    and r2: "bnd (And s2 (bi1 ! i) z2) (\<lambda>i1i2 s3.
            bnd (And s3 (bi2 ! i) z1) (\<lambda>i2i1 s4.
            bnd (Select s4 i2i1 (Constant (- 1)) (Constant 0)) (\<lambda>n s5.
            bnd (Select s5 i1i2 (Constant 1) n) (\<lambda>m s6.
            bnd (IsZero s6 res) (\<lambda>z s7.
            bnd (Select s7 z m res) (\<lambda>res1 s8.
            Cmp_loop s8 bi1 bi2 res1 i)))))) = (Inr r, s')"
    by (auto dest!: bnd_Inr)
  from r2 obtain i1i2 s3 where o3: "And s2 (bi1 ! i) z2 = (Inr i1i2, s3)"
    and r3: "bnd (And s3 (bi2 ! i) z1) (\<lambda>i2i1 s4.
            bnd (Select s4 i2i1 (Constant (- 1)) (Constant 0)) (\<lambda>n s5.
            bnd (Select s5 i1i2 (Constant 1) n) (\<lambda>m s6.
            bnd (IsZero s6 res) (\<lambda>z s7.
            bnd (Select s7 z m res) (\<lambda>res1 s8.
            Cmp_loop s8 bi1 bi2 res1 i))))) = (Inr r, s')"
    by (blast dest: bnd_Inr)
  from r3 obtain i2i1 s4 where o4: "And s3 (bi2 ! i) z1 = (Inr i2i1, s4)"
    and r4: "bnd (Select s4 i2i1 (Constant (- 1)) (Constant 0)) (\<lambda>n s5.
            bnd (Select s5 i1i2 (Constant 1) n) (\<lambda>m s6.
            bnd (IsZero s6 res) (\<lambda>z s7.
            bnd (Select s7 z m res) (\<lambda>res1 s8.
            Cmp_loop s8 bi1 bi2 res1 i)))) = (Inr r, s')"
    by (blast dest: bnd_Inr)
  from r4 obtain n s5 where o5: "Select s4 i2i1 (Constant (- 1)) (Constant 0) = (Inr n, s5)"
    and r5: "bnd (Select s5 i1i2 (Constant 1) n) (\<lambda>m s6.
            bnd (IsZero s6 res) (\<lambda>z s7.
            bnd (Select s7 z m res) (\<lambda>res1 s8.
            Cmp_loop s8 bi1 bi2 res1 i))) = (Inr r, s')"
    by (blast dest: bnd_Inr)
  from r5 obtain m s6 where o6: "Select s5 i1i2 (Constant 1) n = (Inr m, s6)"
    and r6: "bnd (IsZero s6 res) (\<lambda>z s7.
            bnd (Select s7 z m res) (\<lambda>res1 s8.
            Cmp_loop s8 bi1 bi2 res1 i)) = (Inr r, s')"
    by (blast dest: bnd_Inr)
  from r6 obtain z s7 where o7: "IsZero s6 res = (Inr z, s7)"
    and r7: "bnd (Select s7 z m res) (\<lambda>res1 s8.
            Cmp_loop s8 bi1 bi2 res1 i) = (Inr r, s')"
    by (blast dest: bnd_Inr)
  from r7 obtain res1 s8 where o8: "Select s7 z m res = (Inr res1, s8)"
    and r8: "Cmp_loop s8 bi1 bi2 res1 i = (Inr r, s')"
    by (blast dest: bnd_Inr)
  from o1 o2 o3 o4 o5 o6 o7 o8 r8 show ?thesis by blast
qed

lemma Cmp_loop_complete:
  fixes s :: "'a::field builder"
  assumes "Cmp_loop s bi1 bi2 res i = (Inr r, s')" and "wellFormed s"
    and "\<forall>j<i. varInRange (nbVariables s) (bi1 ! j)"
    and "\<forall>j<i. varInRange (nbVariables s) (bi2 ! j)"
    and "varInRange (nbVariables s) res"
  shows "wellFormed s' \<and> nbVariables s \<le> nbVariables s' \<and> varInRange (nbVariables s') r \<and>
     (\<forall>w. satisfies w (constraints s) \<and>
          (\<forall>j<i. eval w (bi1 ! j) = 0 \<or> eval w (bi1 ! j) = 1) \<and>
          (\<forall>j<i. eval w (bi2 ! j) = 0 \<or> eval w (bi2 ! j) = 1) \<longrightarrow>
        (\<exists>w'. agree (nbVariables s) w w' \<and> satisfies w' (constraints s')))"
  using assms
proof (induction i arbitrary: s res)
  case 0
  then have "s' = s" "r = res" by simp_all
  with 0 show ?case using ext_refl by auto
next
  case (Suc i)
  from Cmp_loop_Suc_run [OF Suc.prems(1)]
  obtain z1 s1 z2 s2 i1i2 s3 i2i1 s4 n s5 m s6 z s7 res1 s8 where
        o1: "IsZero s (bi1 ! i) = (Inr z1, s1)"
    and o2: "IsZero s1 (bi2 ! i) = (Inr z2, s2)"
    and o3: "And s2 (bi1 ! i) z2 = (Inr i1i2, s3)"
    and o4: "And s3 (bi2 ! i) z1 = (Inr i2i1, s4)"
    and o5: "Select s4 i2i1 (Constant (- 1)) (Constant 0) = (Inr n, s5)"
    and o6: "Select s5 i1i2 (Constant 1) n = (Inr m, s6)"
    and o7: "IsZero s6 res = (Inr z, s7)"
    and o8: "Select s7 z m res = (Inr res1, s8)"
    and rest: "Cmp_loop s8 bi1 bi2 res1 i = (Inr r, s')"
    by blast
  have rb1: "varInRange (nbVariables s) (bi1 ! i)"
    and rb2: "varInRange (nbVariables s) (bi2 ! i)"
    using Suc.prems(3,4) by simp_all
  note it = Cmp_iteration_complete [OF o1 o2 o3 o4 o5 o6 o7 o8 Suc.prems(2) rb1 rb2 Suc.prems(5)]
  from it have wf8: "wellFormed s8" and n8: "nbVariables s \<le> nbVariables s8"
    and r8: "varInRange (nbVariables s8) res1" by simp_all
  have q1: "\<forall>j<i. varInRange (nbVariables s8) (bi1 ! j)"
    using Suc.prems(3) varInRange_mono [OF _ n8] by (meson less_Suc_eq)
  have q2: "\<forall>j<i. varInRange (nbVariables s8) (bi2 ! j)"
    using Suc.prems(4) varInRange_mono [OF _ n8] by (meson less_Suc_eq)
  note ih = Suc.IH [OF rest wf8 q1 q2 r8]
  from ih have wf': "wellFormed s'" and n': "nbVariables s8 \<le> nbVariables s'"
    and r': "varInRange (nbVariables s') r" by simp_all
  have "\<exists>w'. agree (nbVariables s) w w' \<and> satisfies w' (constraints s')"
    if sat: "satisfies w (constraints s)"
      and v1: "\<forall>j<Suc i. eval w (bi1 ! j) = 0 \<or> eval w (bi1 ! j) = 1"
      and v2: "\<forall>j<Suc i. eval w (bi2 ! j) = 0 \<or> eval w (bi2 ! j) = 1" for w
  proof -
    from it sat v1 v2 obtain w8 where g8: "agree (nbVariables s) w w8"
      and t8: "satisfies w8 (constraints s8)" by auto
    have k1: "\<forall>j<i. eval w8 (bi1 ! j) = 0 \<or> eval w8 (bi1 ! j) = 1"
      using v1 Suc.prems(3) agree_eval [OF g8] by (simp add: less_Suc_eq)
    have k2: "\<forall>j<i. eval w8 (bi2 ! j) = 0 \<or> eval w8 (bi2 ! j) = 1"
      using v2 Suc.prems(4) agree_eval [OF g8] by (simp add: less_Suc_eq)
    from ih t8 k1 k2 obtain w' where g': "agree (nbVariables s8) w8 w'"
      and t': "satisfies w' (constraints s')" by blast
    from agree_trans [OF g8 g' n8] t' show ?thesis by blast
  qed
  with wf' n' n8 r' show ?case by simp
qed

lemma Cmp_loop_prefix:
  "Cmp_loop s bi1 bi2 res i = (Inr r, s') \<Longrightarrow> prefix (constraints s) (constraints s')"
proof (induction i arbitrary: s res)
  case 0
  then show ?case by simp
next
  case (Suc i)
  from Cmp_loop_Suc_run [OF Suc.prems]
  obtain z1 s1 z2 s2 i1i2 s3 i2i1 s4 n s5 m s6 z s7 res1 s8 where
        o1: "IsZero s (bi1 ! i) = (Inr z1, s1)"
    and o2: "IsZero s1 (bi2 ! i) = (Inr z2, s2)"
    and o3: "And s2 (bi1 ! i) z2 = (Inr i1i2, s3)"
    and o4: "And s3 (bi2 ! i) z1 = (Inr i2i1, s4)"
    and o5: "Select s4 i2i1 (Constant (- 1)) (Constant 0) = (Inr n, s5)"
    and o6: "Select s5 i1i2 (Constant 1) n = (Inr m, s6)"
    and o7: "IsZero s6 res = (Inr z, s7)"
    and o8: "Select s7 z m res = (Inr res1, s8)"
    and rest: "Cmp_loop s8 bi1 bi2 res1 i = (Inr r, s')"
    by blast
  have p1: "prefix (constraints s) (constraints s1)" using IsZero_sound [OF o1] by blast
  have p2: "prefix (constraints s1) (constraints s2)" using IsZero_sound [OF o2] by blast
  have p3: "prefix (constraints s2) (constraints s3)" using And_sound [OF o3] by blast
  have p4: "prefix (constraints s3) (constraints s4)" using And_sound [OF o4] by blast
  have p5: "prefix (constraints s4) (constraints s5)" using Select_sound [OF o5] by blast
  have p6: "prefix (constraints s5) (constraints s6)" using Select_sound [OF o6] by blast
  have p7: "prefix (constraints s6) (constraints s7)" using IsZero_sound [OF o7] by blast
  have p8: "prefix (constraints s7) (constraints s8)" using Select_sound [OF o8] by blast
  note p9 = Suc.IH [OF rest]
  note t = prefix_order.trans
  show ?case
    by (rule t [OF p1 t [OF p2 t [OF p3 t [OF p4 t [OF p5 t [OF p6 t [OF p7 t [OF p8 p9]]]]]]]])
qed

lemma Cmp_loop_gates:
  assumes "Cmp_loop s bi1 bi2 res (Suc i) = (Inr r, s')" and "bi1 ! i = Wire t"
  shows "length (constraints s) + 2 \<le> length (constraints s')"
proof -
  from Cmp_loop_Suc_run [OF assms(1)]
  obtain z1 s1 z2 s2 i1i2 s3 i2i1 s4 n s5 m s6 z s7 res1 s8 where
        o1: "IsZero s (bi1 ! i) = (Inr z1, s1)"
    and o2: "IsZero s1 (bi2 ! i) = (Inr z2, s2)"
    and o3: "And s2 (bi1 ! i) z2 = (Inr i1i2, s3)"
    and o4: "And s3 (bi2 ! i) z1 = (Inr i2i1, s4)"
    and o5: "Select s4 i2i1 (Constant (- 1)) (Constant 0) = (Inr n, s5)"
    and o6: "Select s5 i1i2 (Constant 1) n = (Inr m, s6)"
    and o7: "IsZero s6 res = (Inr z, s7)"
    and o8: "Select s7 z m res = (Inr res1, s8)"
    and rest: "Cmp_loop s8 bi1 bi2 res1 i = (Inr r, s')"
    by blast
  from o1 assms(2) have l1: "length (constraints s1) = length (constraints s) + 2"
    by (auto simp: IsZero_Wire)
  have p2: "prefix (constraints s1) (constraints s2)" using IsZero_sound [OF o2] by blast
  have p3: "prefix (constraints s2) (constraints s3)" using And_sound [OF o3] by blast
  have p4: "prefix (constraints s3) (constraints s4)" using And_sound [OF o4] by blast
  have p5: "prefix (constraints s4) (constraints s5)" using Select_sound [OF o5] by blast
  have p6: "prefix (constraints s5) (constraints s6)" using Select_sound [OF o6] by blast
  have p7: "prefix (constraints s6) (constraints s7)" using IsZero_sound [OF o7] by blast
  have p8: "prefix (constraints s7) (constraints s8)" using Select_sound [OF o8] by blast
  note p9 = Cmp_loop_prefix [OF rest]
  note t = prefix_order.trans
  have "prefix (constraints s1) (constraints s')"
    by (rule t [OF p2 t [OF p3 t [OF p4 t [OF p5 t [OF p6 t [OF p7 t [OF p8 p9]]]]]]])
  from prefix_length_le [OF this] l1 show ?thesis by simp
qed

text \<open>The loop of \<^verbatim>\<open>Cmp\<close> computes the scan of the spec.\<close>

lemma Cmp_loop_scan:
  fixes s :: "'a::field builder"
  assumes "Cmp_loop s bi1 bi2 res i = (Inr r, s')"
    and "i \<le> length bi1" and "i \<le> length bi2"
    and "\<forall>j<i. \<forall>c. bi1 ! j = Constant c \<longrightarrow> c = 0 \<or> c = 1"
    and "\<forall>j<i. \<forall>c. bi2 ! j = Constant c \<longrightarrow> c = 0 \<or> c = 1"
  shows "\<forall>w. satisfies w (constraints s') \<and>
        (\<forall>j<i. eval w (bi1 ! j) = 0 \<or> eval w (bi1 ! j) = 1) \<and>
        (\<forall>j<i. eval w (bi2 ! j) = 0 \<or> eval w (bi2 ! j) = 1) \<longrightarrow>
        eval w r = Cmp_scan_spec (\<lambda>j. eval w (bi1 ! j)) (\<lambda>j. eval w (bi2 ! j)) (eval w res) i"
  using assms
proof (induction i arbitrary: s res)
  case 0
  then show ?case by simp
next
  case (Suc i)
  have b1: "\<forall>c. bi1 ! i = Constant c \<longrightarrow> c = 0 \<or> c = 1"
    and b2: "\<forall>c. bi2 ! i = Constant c \<longrightarrow> c = 0 \<or> c = 1"
    using Suc.prems(4,5) by blast+
  have l1: "i < length bi1" and l2: "i < length bi2" using Suc.prems(2,3) by simp_all
  from Cmp_loop_step [OF l1 l2 b1 b2, of s res]
  obtain res1 s8 where
        run: "Cmp_loop s bi1 bi2 res (Suc i) = Cmp_loop s8 bi1 bi2 res1 i"
    and st: "\<forall>w. satisfies w (constraints s8) \<and>
          (eval w (bi1 ! i) = 0 \<or> eval w (bi1 ! i) = 1) \<and>
          (eval w (bi2 ! i) = 0 \<or> eval w (bi2 ! i) = 1) \<longrightarrow>
          eval w res1 =
            (if eval w res \<noteq> 0 then eval w res
             else if eval w (bi1 ! i) = 1 \<and> eval w (bi2 ! i) = 0 then 1
             else if eval w (bi1 ! i) = 0 \<and> eval w (bi2 ! i) = 1 then - 1
             else 0)"
    by blast
  from run Suc.prems(1) have rest: "Cmp_loop s8 bi1 bi2 res1 i = (Inr r, s')" by simp
  have q1: "i \<le> length bi1" and q2: "i \<le> length bi2" using Suc.prems(2,3) by simp_all
  have q3: "\<forall>j<i. \<forall>c. bi1 ! j = Constant c \<longrightarrow> c = 0 \<or> c = 1"
    and q4: "\<forall>j<i. \<forall>c. bi2 ! j = Constant c \<longrightarrow> c = 0 \<or> c = 1"
    using Suc.prems(4,5) by (simp_all add: less_Suc_eq)
  note ih = Suc.IH [OF rest q1 q2 q3 q4]
  note p = Cmp_loop_prefix [OF rest]
  have "eval w r = Cmp_scan_spec (\<lambda>j. eval w (bi1 ! j)) (\<lambda>j. eval w (bi2 ! j)) (eval w res) (Suc i)"
    if sat: "satisfies w (constraints s')"
      and x: "\<forall>j<Suc i. eval w (bi1 ! j) = 0 \<or> eval w (bi1 ! j) = 1"
      and y: "\<forall>j<Suc i. eval w (bi2 ! j) = 0 \<or> eval w (bi2 ! j) = 1" for w
  proof -
    have xi: "eval w (bi1 ! i) = 0 \<or> eval w (bi1 ! i) = 1"
      and yi: "eval w (bi2 ! i) = 0 \<or> eval w (bi2 ! i) = 1"
      using x y by simp_all
    have sat8: "satisfies w (constraints s8)" using satisfies_prefix [OF p sat] .
    have e: "eval w res1 =
            (if eval w res \<noteq> 0 then eval w res
             else if eval w (bi1 ! i) = 1 \<and> eval w (bi2 ! i) = 0 then 1
             else if eval w (bi1 ! i) = 0 \<and> eval w (bi2 ! i) = 1 then - 1
             else 0)"
      using st sat8 xi yi by blast
    have x': "\<forall>j<i. eval w (bi1 ! j) = 0 \<or> eval w (bi1 ! j) = 1"
      and y': "\<forall>j<i. eval w (bi2 ! j) = 0 \<or> eval w (bi2 ! j) = 1"
      using x y by (simp_all add: less_Suc_eq)
    from ih sat x' y'
    have "eval w r = Cmp_scan_spec (\<lambda>j. eval w (bi1 ! j)) (\<lambda>j. eval w (bi2 ! j)) (eval w res1) i"
      by blast
    then show ?thesis unfolding e by simp
  qed
  then show ?case by blast
qed

subsection \<open>The comparison\<close>


subsection \<open>A run on wires\<close>

text \<open>
  Over the integers modulo 7, with the decomposition \<open>ToBinary_F7\<close>, which meets the contract:
  \<^verbatim>\<open>Cmp\<close> of the wires \<open>x\<^sub>0\<close> and \<open>x\<^sub>1\<close> adds gates of its own to the 14 of the two
  decompositions, and the assignment \<open>x\<^sub>0 = 3\<close>, \<open>x\<^sub>1 = 5\<close> extends to one that satisfies
  all the gates and gives the result -1.
\<close>

lemma Rep_F7_range: "0 \<le> Rep_F7 x \<and> Rep_F7 x < 7"
  using Rep_F7 [of x] by simp

lemma all_less_3: "(\<forall>j<3. P j) \<longleftrightarrow> P 0 \<and> P (Suc 0) \<and> P (Suc (Suc 0))"
  by (auto simp: numeral_3_eq_3 less_Suc_eq)

lemma of_nat_Rep_F7: "of_nat (nat (Rep_F7 x)) = x"
proof -
  have "Rep_F7 (of_nat (nat (Rep_F7 x))) = int (nat (Rep_F7 x)) mod 7"
    by (rule Rep_F7_of_nat)
  also have "\<dots> = Rep_F7 x" using Rep_F7_range [of x] by simp
  finally show ?thesis unfolding F7_eq_iff .
qed

lemma repr_F7: "repr 7 (x::F7) = nat (Rep_F7 x)"
proof -
  let ?n = "nat (Rep_F7 x)"
  from Rep_F7_range [of x] have n: "?n < 7" by linarith
  have e: "of_nat ?n = x" by (rule of_nat_Rep_F7)
  from repr_find [of 7 x] n e have r: "repr 7 x < 7" "of_nat (repr 7 x) = x" by blast+
  from r(2) have "int (repr 7 x) mod 7 = Rep_F7 x"
    using Rep_F7_of_nat [of "repr 7 x"] by simp
  with r(1) have "int (repr 7 x) = Rep_F7 x" by simp
  then show ?thesis by simp
qed

lemma F7_surj: "\<forall>x::F7. \<exists>n<7. of_nat n = x"
proof
  fix x :: F7
  from Rep_F7_range [of x] have n: "nat (Rep_F7 x) < 7" by linarith
  have e: "of_nat (nat (Rep_F7 x)) = x" by (rule of_nat_Rep_F7)
  from n e show "\<exists>n<7. of_nat n = x" by blast
qed

lemma digits_F7:
  fixes b0 b1 b2 x :: F7
  assumes "b0 = 0 \<or> b0 = 1" and "b1 = 0 \<or> b1 = 1" and "b2 = 0 \<or> b2 = 1"
    and "b0 * b1 * b2 = 0" and "x = b0 + 2 * b1 + 4 * b2"
  shows "b0 = of_bool (bit (repr 7 x) 0) \<and> b1 = of_bool (bit (repr 7 x) (Suc 0)) \<and>
         b2 = of_bool (bit (repr 7 x) (Suc (Suc 0)))"
proof -
  have k: "nat (Rep_F7 (b0 + 2 * b1 + 4 * b2)) =
        (if b0 = 1 then 1 else 0) + (if b1 = 1 then 2 else 0) + (if b2 = 1 then 4 else 0)"
    using assms(1,2,3,4) by (auto simp: F7_simps)
  show ?thesis
    unfolding repr_F7 assms(5) k using assms(1,2,3,4)
    by (auto simp: bit_Suc bit_0)
qed

lemma ToBinary_F7_Wire:
  assumes "\<forall>b \<in> set (mtBooleans s). VID b < nbVariables s"
  shows "ToBinary_F7 s (Wire t) 3 =
     (Inr [Wire \<lparr>VID = nbVariables s, Coeff = 1\<rparr>, Wire \<lparr>VID = Suc (nbVariables s), Coeff = 1\<rparr>,
           Wire \<lparr>VID = Suc (Suc (nbVariables s)), Coeff = 1\<rparr>],
      s\<lparr>nbVariables := nbVariables s + 5,
        mtBooleans := mtBooleans s @
          [\<lparr>VID = nbVariables s, Coeff = 1\<rparr>, \<lparr>VID = Suc (nbVariables s), Coeff = 1\<rparr>,
           \<lparr>VID = Suc (Suc (nbVariables s)), Coeff = 1\<rparr>],
        constraints := constraints s @
          [\<lparr>xa = nbVariables s, xb = nbVariables s, xc = 0,
            qL = 1, qR = 0, qO = 0, qM = - 1, qC = 0, commitment = NOT\<rparr>,
           \<lparr>xa = Suc (nbVariables s), xb = Suc (nbVariables s), xc = 0,
            qL = 1, qR = 0, qO = 0, qM = - 1, qC = 0, commitment = NOT\<rparr>,
           \<lparr>xa = Suc (Suc (nbVariables s)), xb = Suc (Suc (nbVariables s)), xc = 0,
            qL = 1, qR = 0, qO = 0, qM = - 1, qC = 0, commitment = NOT\<rparr>,
           \<lparr>xa = nbVariables s, xb = Suc (nbVariables s), xc = nbVariables s + 3,
            qL = 0, qR = 0, qO = - 1, qM = 1, qC = 0, commitment = NOT\<rparr>,
           \<lparr>xa = nbVariables s + 3, xb = Suc (Suc (nbVariables s)), xc = 0,
            qL = 0, qR = 0, qO = 0, qM = 1, qC = 0, commitment = NOT\<rparr>,
           \<lparr>xa = nbVariables s, xb = Suc (nbVariables s), xc = nbVariables s + 4,
            qL = 1, qR = 2, qO = - 1, qM = 0, qC = 0, commitment = NOT\<rparr>,
           \<lparr>xa = nbVariables s + 4, xb = Suc (Suc (nbVariables s)), xc = VID t,
            qL = 1, qR = 4, qO = - Coeff t, qM = 0, qC = 0, commitment = NOT\<rparr>]\<rparr>)"
proof -
  have "\<lparr>VID = nbVariables s + k, Coeff = 1\<rparr> \<notin> set (mtBooleans s)" for k
    using assms by auto
  from this [of 0] this [of 1] this [of 2] show ?thesis
    by (simp add: ToBinary_F7_def newInternalVariable_def AssertIsBoolean_Wire
        addPlonkConstraint_def zeroR1C_def Let_def eval_nat_numeral)
qed

lemma bit_gates_F7_sound:
  fixes w :: "nat \<Rightarrow> F7"
  assumes "satisfies w
          [\<lparr>xa = n, xb = n, xc = 0,
            qL = 1, qR = 0, qO = 0, qM = - 1, qC = 0, commitment = NOT\<rparr>,
           \<lparr>xa = Suc n, xb = Suc n, xc = 0,
            qL = 1, qR = 0, qO = 0, qM = - 1, qC = 0, commitment = NOT\<rparr>,
           \<lparr>xa = Suc (Suc n), xb = Suc (Suc n), xc = 0,
            qL = 1, qR = 0, qO = 0, qM = - 1, qC = 0, commitment = NOT\<rparr>,
           \<lparr>xa = n, xb = Suc n, xc = n + 3,
            qL = 0, qR = 0, qO = - 1, qM = 1, qC = 0, commitment = NOT\<rparr>,
           \<lparr>xa = n + 3, xb = Suc (Suc n), xc = 0,
            qL = 0, qR = 0, qO = 0, qM = 1, qC = 0, commitment = NOT\<rparr>,
           \<lparr>xa = n, xb = Suc n, xc = n + 4,
            qL = 1, qR = 2, qO = - 1, qM = 0, qC = 0, commitment = NOT\<rparr>,
           \<lparr>xa = n + 4, xb = Suc (Suc n), xc = VID t,
            qL = 1, qR = 4, qO = - Coeff t, qM = 0, qC = 0, commitment = NOT\<rparr>]"
  shows "w n = of_bool (bit (repr 7 (termVal w t)) 0) \<and>
         w (Suc n) = of_bool (bit (repr 7 (termVal w t)) (Suc 0)) \<and>
         w (Suc (Suc n)) = of_bool (bit (repr 7 (termVal w t)) (Suc (Suc 0)))"
proof -
  have bool: "x = 0 \<or> x = 1" if "x + - 1 * x * x = 0" for x :: F7
  proof -
    from that have "x * (1 - x) = 0" by (simp add: algebra_simps)
    then show ?thesis by auto
  qed
  from assms have g1: "w n + - 1 * w n * w n = 0"
    and g2: "w (Suc n) + - 1 * w (Suc n) * w (Suc n) = 0"
    and g3: "w (Suc (Suc n)) + - 1 * w (Suc (Suc n)) * w (Suc (Suc n)) = 0"
    and g4: "w n * w (Suc n) + - 1 * w (n + 3) = 0"
    and g5: "w (n + 3) * w (Suc (Suc n)) = 0"
    and g6: "w n + 2 * w (Suc n) + - 1 * w (n + 4) = 0"
    and g7: "w (n + 4) + 4 * w (Suc (Suc n)) + - Coeff t * w (VID t) = 0"
    by (simp_all add: gateHolds_def)
  from g4 have u: "w (n + 3) = w n * w (Suc n)" by (simp add: algebra_simps)
  from g6 have d: "w (n + 4) = w n + 2 * w (Suc n)" by (simp add: algebra_simps)
  from g7 have x: "termVal w t = w n + 2 * w (Suc n) + 4 * w (Suc (Suc n))"
    unfolding d termVal_def by (simp add: algebra_simps)
  from g5 have z: "w n * w (Suc n) * w (Suc (Suc n)) = 0" unfolding u .
  from digits_F7 [OF bool [OF g1] bool [OF g2] bool [OF g3] z x] show ?thesis .
qed


end
